theory Spec2Isabelle
  imports Complex_Main "HOL-Library.Log_Nat"
begin

section \<open>K-DATAELECT: the import, aggregation and export core of services/dataService.ts\<close>

text \<open>
  The development embeds \<^verbatim>\<open>parseValue\<close>, \<^verbatim>\<open>parseDateTime\<close>, \<^verbatim>\<open>parseExcelFiles\<close>,
  \<^verbatim>\<open>aggregateToHourly\<close> and \<^verbatim>\<open>generateCSV\<close>.
  What the TypeScript leaves to its host is made explicit:
  \<^item> a JavaScript number is an IEEE 754 binary64 value: a rational, the two infinities or NaN;
    every arithmetic result is rounded to the nearest binary64 value, ties to even
    (the two zeros are identified);
  \<^item> a JavaScript string is a list of characters with code units below 256;
  \<^item> a \<^verbatim>\<open>Date\<close> is its time value, an integer count of milliseconds since the Unix epoch,
    or the invalid date;
  \<^item> the host's time zone is a constant offset of whole minutes from UTC, and its clock,
    its native date parser and its locale formatting are parameters.
\<close>

subsection \<open>JavaScript numbers\<close>

datatype number = Fin rat | PInf | NInf | NaN

text \<open>\<open>ilog2 r\<close> is the binary exponent of a positive rational: \<open>2 powi ilog2 r \<le> r < 2 powi (ilog2 r + 1)\<close>.\<close>

definition ilog2 :: "rat \<Rightarrow> int" where
  "ilog2 r = (case quotient_of r of (p, q) \<Rightarrow>
     (let e = bitlen p - bitlen q in if 2 powi e \<le> r then e else e - 1))"

definition round_even :: "rat \<Rightarrow> int" where
  "round_even x = (let n = \<lfloor>x\<rfloor>; f = x - of_int n in
     if f < 1 / 2 then n else if 1 / 2 < f then n + 1 else if even n then n else n + 1)"

text \<open>
  Rounding of an exact result to binary64: 53 significant bits down to the exponent
  \<open>-1022\<close>, subnormal spacing \<open>2 powi (-1074)\<close> below, overflow to an infinity.
\<close>

definition rnd :: "rat \<Rightarrow> number" where
  "rnd r = (if r = 0 then Fin 0 else
     (let e = max (ilog2 \<bar>r\<bar>) (- 1022); u = 2 powi (e - 52);
          v = of_int (round_even (\<bar>r\<bar> / u)) * u
      in if 2 powi 1024 \<le> v then (if 0 < r then PInf else NInf) else Fin (sgn r * v)))"

text \<open>A number of the model is a binary64 value when rounding leaves it unchanged.\<close>

fun is_double :: "number \<Rightarrow> bool" where
  "is_double (Fin r) = (rnd r = Fin r)"
| "is_double _ = True"

fun isNaN :: "number \<Rightarrow> bool" where
  "isNaN NaN = True"
| "isNaN _ = False"

fun isFinite :: "number \<Rightarrow> bool" where
  "isFinite (Fin r) = True"
| "isFinite _ = False"

fun fneg :: "number \<Rightarrow> number" where
  "fneg (Fin r) = Fin (- r)"
| "fneg PInf = NInf"
| "fneg NInf = PInf"
| "fneg NaN = NaN"

fun fadd :: "number \<Rightarrow> number \<Rightarrow> number" where
  "fadd (Fin a) (Fin b) = rnd (a + b)"
| "fadd NaN y = NaN"
| "fadd x NaN = NaN"
| "fadd PInf NInf = NaN"
| "fadd NInf PInf = NaN"
| "fadd PInf y = PInf"
| "fadd NInf y = NInf"
| "fadd (Fin a) y = y"

definition fsub :: "number \<Rightarrow> number \<Rightarrow> number" where
  "fsub x y = fadd x (fneg y)"

fun fmul :: "number \<Rightarrow> number \<Rightarrow> number" where
  "fmul (Fin a) (Fin b) = rnd (a * b)"
| "fmul NaN y = NaN"
| "fmul x NaN = NaN"
| "fmul (Fin a) y = (if a = 0 then NaN else if 0 < a then y else fneg y)"
| "fmul x (Fin b) = (if b = 0 then NaN else if 0 < b then x else fneg x)"
| "fmul PInf y = y"
| "fmul NInf y = fneg y"

fun fdiv :: "number \<Rightarrow> number \<Rightarrow> number" where
  "fdiv (Fin a) (Fin b) =
     (if b = 0 then (if a = 0 then NaN else if 0 < a then PInf else NInf) else rnd (a / b))"
| "fdiv NaN y = NaN"
| "fdiv x NaN = NaN"
| "fdiv (Fin a) y = Fin 0"
| "fdiv x (Fin b) = (if 0 \<le> b then x else fneg x)"
| "fdiv x y = NaN"

definition trunc_rat :: "rat \<Rightarrow> int" where
  "trunc_rat r = (if 0 \<le> r then \<lfloor>r\<rfloor> else \<lceil>r\<rceil>)"

text \<open>The remainder operator \<^verbatim>\<open>%\<close>: the result takes the sign of the dividend and is exact.\<close>

fun fmod :: "number \<Rightarrow> number \<Rightarrow> number" where
  "fmod (Fin a) (Fin b) = (if b = 0 then NaN else Fin (a - b * of_int (trunc_rat (a / b))))"
| "fmod (Fin a) PInf = Fin a"
| "fmod (Fin a) NInf = Fin a"
| "fmod x y = NaN"

text \<open>\<^verbatim>\<open>Math.floor\<close> and \<^verbatim>\<open>Math.round\<close> (halves go up).\<close>

fun Math_floor :: "number \<Rightarrow> number" where
  "Math_floor (Fin r) = Fin (of_int \<lfloor>r\<rfloor>)"
| "Math_floor x = x"

fun Math_round :: "number \<Rightarrow> number" where
  "Math_round (Fin r) = Fin (of_int \<lfloor>r + 1 / 2\<rfloor>)"
| "Math_round x = x"

text \<open>The comparisons \<^verbatim>\<open><\<close> and \<^verbatim>\<open><=\<close>: false whenever an operand is NaN.\<close>

fun flt :: "number \<Rightarrow> number \<Rightarrow> bool" where
  "flt (Fin a) (Fin b) = (a < b)"
| "flt NaN y = False"
| "flt x NaN = False"
| "flt x NInf = False"
| "flt PInf y = False"
| "flt x y = True"

fun fle :: "number \<Rightarrow> number \<Rightarrow> bool" where
  "fle (Fin a) (Fin b) = (a \<le> b)"
| "fle NaN y = False"
| "fle x NaN = False"
| "fle NInf y = True"
| "fle x PInf = True"
| "fle x y = False"

text \<open>\<^verbatim>\<open>Math.max(...xs)\<close> and \<^verbatim>\<open>Math.min(...xs)\<close>: NaN is contagious, the empty spread gives an infinity.\<close>

definition fmax2 :: "number \<Rightarrow> number \<Rightarrow> number" where
  "fmax2 a b = (if isNaN a \<or> isNaN b then NaN else if flt a b then b else a)"

definition fmin2 :: "number \<Rightarrow> number \<Rightarrow> number" where
  "fmin2 a b = (if isNaN a \<or> isNaN b then NaN else if flt b a then b else a)"

definition Math_max :: "number list \<Rightarrow> number" where
  "Math_max xs = foldl fmax2 NInf xs"

definition Math_min :: "number list \<Rightarrow> number" where
  "Math_min xs = foldl fmin2 PInf xs"

subsection \<open>JavaScript strings\<close>

definition is_ws :: "char \<Rightarrow> bool" where
  "is_ws c = ((of_char c :: nat) \<in> set [9, 10, 11, 12, 13, 32, 160])"

definition is_digit :: "char \<Rightarrow> bool" where
  "is_digit c = (48 \<le> (of_char c :: nat) \<and> (of_char c :: nat) \<le> 57)"

definition digit_val :: "char \<Rightarrow> nat" where
  "digit_val c = of_char c - 48"

definition digits_val :: "string \<Rightarrow> nat" where
  "digits_val ds = foldl (\<lambda>n c. 10 * n + digit_val c) 0 ds"

definition trim :: "string \<Rightarrow> string" where
  "trim s = rev (dropWhile is_ws (rev (dropWhile is_ws s)))"

text \<open>\<^verbatim>\<open>s.replace(a, b)\<close> with a one-character string pattern: the first occurrence only.\<close>

fun replace_first :: "char \<Rightarrow> char \<Rightarrow> string \<Rightarrow> string" where
  "replace_first a b [] = []"
| "replace_first a b (c # cs) = (if c = a then b # cs else c # replace_first a b cs)"

text \<open>\<^verbatim>\<open>s.split(sep)\<close> for a separator that matches exactly one character.\<close>

fun split_on :: "(char \<Rightarrow> bool) \<Rightarrow> string \<Rightarrow> string list" where
  "split_on P [] = [[]]"
| "split_on P (c # cs) =
     (if P c then [] # split_on P cs
      else (case split_on P cs of [] \<Rightarrow> [[c]] | w # ws \<Rightarrow> (c # w) # ws))"

text \<open>The optional sign in front of a numeric literal.\<close>

definition take_sign :: "string \<Rightarrow> bool \<times> string" where
  "take_sign s = (case s of [] \<Rightarrow> (False, [])
     | c # r \<Rightarrow> if c = CHR ''-'' then (True, r) else if c = CHR ''+'' then (False, r) else (False, s))"

definition exponent_part :: "string \<Rightarrow> int" where
  "exponent_part r = (case r of [] \<Rightarrow> 0
     | c # r' \<Rightarrow>
        if c = CHR ''e'' \<or> c = CHR ''E'' then
          (case take_sign r' of (neg, d) \<Rightarrow>
            (let ds = takeWhile is_digit d in
             if ds = [] then 0 else if neg then - int (digits_val ds) else int (digits_val ds)))
        else 0)"

definition parse_unsigned :: "string \<Rightarrow> number" where
  "parse_unsigned u =
     (if take 8 u = ''Infinity'' then PInf
      else
        (let ip = takeWhile is_digit u; r1 = dropWhile is_digit u;
             fp = (case r1 of [] \<Rightarrow> [] | c # r \<Rightarrow> if c = CHR ''.'' then takeWhile is_digit r else []);
             r2 = (case r1 of [] \<Rightarrow> [] | c # r \<Rightarrow> if c = CHR ''.'' then dropWhile is_digit r else r1)
         in if ip = [] \<and> fp = [] then NaN
            else rnd (of_nat (digits_val (ip @ fp)) / 10 ^ length fp * 10 powi exponent_part r2)))"

text \<open>
  \<^verbatim>\<open>parseFloat\<close>: leading white space is skipped, the longest prefix that is a decimal
  literal is converted, and NaN is returned when there is none.
\<close>

definition parseFloat :: "string \<Rightarrow> number" where
  "parseFloat s = (case take_sign (dropWhile is_ws s) of (neg, u) \<Rightarrow>
     (let m = parse_unsigned u in if neg then fneg m else m))"

subsection \<open>Cell values and the value normalizer\<close>

datatype jsdate = Date int | InvalidDate

text \<open>What a cell of the decoded sheet, typed \<^verbatim>\<open>any\<close>, can hold.\<close>

datatype cell = Num number | Str string | Bool bool | DateObj jsdate | Undefined | Null

definition keep_char :: "char \<Rightarrow> bool" where
  "keep_char c = (is_digit c \<or> c = CHR ''.'' \<or> c = CHR ''-'')"

fun parseValue :: "cell \<Rightarrow> number" where
  "parseValue (Num n) = n"
| "parseValue (Str val) =
     (let cleanStr = replace_first (CHR '','') (CHR ''.'') (trim val);
          numberOnly = filter keep_char cleanStr;
          num = parseFloat numberOnly
      in if isNaN num then Fin 0 else num)"
| "parseValue v = Fin 0"

subsection \<open>Dates: the time-value arithmetic of ECMAScript\<close>

text \<open>
  The host parameters. \<open>tz\<close> is the local offset in minutes (local time is UTC plus
  \<open>tz\<close> minutes), \<open>now\<close> the clock read by \<^verbatim>\<open>new Date()\<close>, \<open>nativeParse\<close> the
  implementation-defined \<^verbatim>\<open>new Date(string)\<close>; the remaining fields are the locale
  formatters the code calls with \<^verbatim>\<open>'pt-PT'\<close> and \<^verbatim>\<open>String(x)\<close> on a number or a date.
\<close>

record host =
  tz :: int
  now :: int
  nativeParse :: "string \<Rightarrow> jsdate"
  fmtHourLabel :: "jsdate \<Rightarrow> string"
  fmtDate :: "jsdate \<Rightarrow> string"
  fmtTime :: "jsdate \<Rightarrow> string"
  fmtDateTime :: "jsdate \<Rightarrow> string"
  fmtMonth :: "jsdate \<Rightarrow> string"
  numToString :: "number \<Rightarrow> string"
  dateToString :: "jsdate \<Rightarrow> string"

definition num :: "int \<Rightarrow> number" where
  "num i = Fin (of_int i)"

definition Day :: "int \<Rightarrow> int" where
  "Day t = t div 86400000"

definition TimeWithinDay :: "int \<Rightarrow> int" where
  "TimeWithinDay t = t mod 86400000"

definition HourFromTime :: "int \<Rightarrow> int" where
  "HourFromTime t = (t div 3600000) mod 24"

definition MinFromTime :: "int \<Rightarrow> int" where
  "MinFromTime t = (t div 60000) mod 60"

definition DayFromYear :: "int \<Rightarrow> int" where
  "DayFromYear y = 365 * (y - 1970) + (y - 1969) div 4 - (y - 1901) div 100 + (y - 1601) div 400"

definition DaysInYear :: "int \<Rightarrow> int" where
  "DaysInYear y = (if y mod 4 \<noteq> 0 then 365 else if y mod 100 \<noteq> 0 then 366
                   else if y mod 400 \<noteq> 0 then 365 else 366)"

text \<open>The largest year whose first day is not after day \<open>d\<close>, found among three candidates.\<close>

definition YearFromDay :: "int \<Rightarrow> int" where
  "YearFromDay d = (let y0 = 1970 + (400 * d) div 146097 in
     if DayFromYear (y0 + 1) \<le> d then y0 + 1 else if DayFromYear y0 \<le> d then y0 else y0 - 1)"

definition YearFromTime :: "int \<Rightarrow> int" where
  "YearFromTime t = YearFromDay (Day t)"

text \<open>The number of days of a year that precede its month \<open>m\<close> (0 is January).\<close>

definition daysBeforeMonth :: "int \<Rightarrow> int \<Rightarrow> int" where
  "daysBeforeMonth y m = (let l = (if DaysInYear y = 366 then 1 else 0) in
     if m = 0 then 0 else if m = 1 then 31 else if m = 2 then 59 + l else if m = 3 then 90 + l
     else if m = 4 then 120 + l else if m = 5 then 151 + l else if m = 6 then 181 + l
     else if m = 7 then 212 + l else if m = 8 then 243 + l else if m = 9 then 273 + l
     else if m = 10 then 304 + l else 334 + l)"

definition MonthFromTime :: "int \<Rightarrow> int" where
  "MonthFromTime t = (let y = YearFromTime t; d = Day t - DayFromYear y in
     if d < daysBeforeMonth y 1 then 0 else if d < daysBeforeMonth y 2 then 1
     else if d < daysBeforeMonth y 3 then 2 else if d < daysBeforeMonth y 4 then 3
     else if d < daysBeforeMonth y 5 then 4 else if d < daysBeforeMonth y 6 then 5
     else if d < daysBeforeMonth y 7 then 6 else if d < daysBeforeMonth y 8 then 7
     else if d < daysBeforeMonth y 9 then 8 else if d < daysBeforeMonth y 10 then 9
     else if d < daysBeforeMonth y 11 then 10 else 11)"

definition LocalTime :: "int \<Rightarrow> int \<Rightarrow> int" where
  "LocalTime z t = t + z * 60000"

definition UTC :: "int \<Rightarrow> number \<Rightarrow> number" where
  "UTC z t = fsub t (num (z * 60000))"

fun ToIntegerOrInfinity :: "number \<Rightarrow> number" where
  "ToIntegerOrInfinity (Fin r) = Fin (of_int (trunc_rat r))"
| "ToIntegerOrInfinity NaN = Fin 0"
| "ToIntegerOrInfinity x = x"

definition MakeTime :: "number \<Rightarrow> number \<Rightarrow> number \<Rightarrow> number \<Rightarrow> number" where
  "MakeTime hour minute sec ms =
     (if isFinite hour \<and> isFinite minute \<and> isFinite sec \<and> isFinite ms then
        fadd (fadd (fadd (fmul (ToIntegerOrInfinity hour) (Fin 3600000))
                         (fmul (ToIntegerOrInfinity minute) (Fin 60000)))
                   (fmul (ToIntegerOrInfinity sec) (Fin 1000)))
             (ToIntegerOrInfinity ms)
      else NaN)"

text \<open>
  \<^verbatim>\<open>MakeDay\<close>: the day number of the first of the month, by the proleptic Gregorian
  calendar for every integral year, plus the day of the month less one.
\<close>

definition MakeDay :: "number \<Rightarrow> number \<Rightarrow> number \<Rightarrow> number" where
  "MakeDay year month date =
     (case (ToIntegerOrInfinity year, ToIntegerOrInfinity month, ToIntegerOrInfinity date) of
        (Fin y, Fin m, Fin dt) \<Rightarrow>
          if isFinite year \<and> isFinite month \<and> isFinite date then
            (let ym = \<lfloor>y\<rfloor> + \<lfloor>m\<rfloor> div 12; mn = \<lfloor>m\<rfloor> mod 12
             in fsub (fadd (num (DayFromYear ym + daysBeforeMonth ym mn)) (Fin dt)) (Fin 1))
          else NaN
      | _ \<Rightarrow> NaN)"

definition MakeDate :: "number \<Rightarrow> number \<Rightarrow> number" where
  "MakeDate day time =
     (if isFinite day \<and> isFinite time then
        (let tv = fadd (fmul day (Fin 86400000)) time in if isFinite tv then tv else NaN)
      else NaN)"

fun TimeClip :: "number \<Rightarrow> jsdate" where
  "TimeClip (Fin r) = (if 8640000000000000 < \<bar>r\<bar> then InvalidDate else Date (trunc_rat r))"
| "TimeClip x = InvalidDate"

text \<open>\<^verbatim>\<open>new Date(value)\<close> for a number, and \<^verbatim>\<open>new Date(y, m, d, h, min)\<close> in local time.\<close>

definition newDate :: "number \<Rightarrow> jsdate" where
  "newDate v = TimeClip v"

definition MakeFullYear :: "number \<Rightarrow> number" where
  "MakeFullYear year = (case ToIntegerOrInfinity year of
      Fin r \<Rightarrow> if isNaN year then NaN else if 0 \<le> r \<and> r \<le> 99 then Fin (1900 + r) else Fin r
    | x \<Rightarrow> x)"

definition newDateLocal :: "int \<Rightarrow> number \<Rightarrow> number \<Rightarrow> number \<Rightarrow> number \<Rightarrow> number \<Rightarrow> jsdate" where
  "newDateLocal z y m dt h mi =
     TimeClip (UTC z (MakeDate (MakeDay (MakeFullYear y) m dt) (MakeTime h mi (Fin 0) (Fin 0))))"

fun getTime :: "jsdate \<Rightarrow> number" where
  "getTime (Date t) = num t"
| "getTime InvalidDate = NaN"

fun getFullYear :: "int \<Rightarrow> jsdate \<Rightarrow> number" where
  "getFullYear z (Date t) = num (YearFromTime (LocalTime z t))"
| "getFullYear z InvalidDate = NaN"

fun setHours :: "int \<Rightarrow> jsdate \<Rightarrow> number \<Rightarrow> number \<Rightarrow> number \<Rightarrow> number \<Rightarrow> jsdate" where
  "setHours z (Date t) h m s ms =
     TimeClip (UTC z (MakeDate (num (Day (LocalTime z t))) (MakeTime h m s ms)))"
| "setHours z InvalidDate h m s ms = InvalidDate"

fun setMinutes :: "int \<Rightarrow> jsdate \<Rightarrow> number \<Rightarrow> number \<Rightarrow> number \<Rightarrow> jsdate" where
  "setMinutes z (Date t) m s ms =
     TimeClip (UTC z (MakeDate (num (Day (LocalTime z t)))
                               (MakeTime (num (HourFromTime (LocalTime z t))) m s ms)))"
| "setMinutes z InvalidDate m s ms = InvalidDate"

fun setSeconds :: "int \<Rightarrow> jsdate \<Rightarrow> number \<Rightarrow> number \<Rightarrow> jsdate" where
  "setSeconds z (Date t) s ms =
     TimeClip (UTC z (MakeDate (num (Day (LocalTime z t)))
                               (MakeTime (num (HourFromTime (LocalTime z t)))
                                         (num (MinFromTime (LocalTime z t))) s ms)))"
| "setSeconds z InvalidDate s ms = InvalidDate"

fun setDate :: "int \<Rightarrow> jsdate \<Rightarrow> number \<Rightarrow> jsdate" where
  "setDate z (Date t) dt =
     TimeClip (UTC z (MakeDate (MakeDay (num (YearFromTime (LocalTime z t)))
                                        (num (MonthFromTime (LocalTime z t))) dt)
                               (num (TimeWithinDay (LocalTime z t)))))"
| "setDate z InvalidDate dt = InvalidDate"

subsection \<open>The timestamp resolver\<close>

definition is_hex :: "char \<Rightarrow> bool" where
  "is_hex c = (is_digit c \<or> (65 \<le> (of_char c :: nat) \<and> (of_char c :: nat) \<le> 70)
                \<or> (97 \<le> (of_char c :: nat) \<and> (of_char c :: nat) \<le> 102))"

definition hex_val :: "char \<Rightarrow> nat" where
  "hex_val c = (if is_digit c then of_char c - 48
                else if (of_char c :: nat) \<le> 70 then of_char c - 55 else of_char c - 87)"

text \<open>\<^verbatim>\<open>parseInt(s)\<close> without a radix: decimal, or hexadecimal after \<^verbatim>\<open>0x\<close>.\<close>

definition parseInt :: "string \<Rightarrow> number" where
  "parseInt s = (case take_sign (dropWhile is_ws s) of (neg, u) \<Rightarrow>
     (let hex = (take 2 u = ''0x'' \<or> take 2 u = ''0X'');
          z = (if hex then takeWhile is_hex (drop 2 u) else takeWhile is_digit u);
          v = (if hex then foldl (\<lambda>n c. 16 * n + hex_val c) 0 z else digits_val z)
      in if z = [] then NaN else if neg then fneg (rnd (of_nat v)) else rnd (of_nat v)))"

text \<open>\<^verbatim>\<open>String(x)\<close> on a cell value.\<close>

fun String :: "host \<Rightarrow> cell \<Rightarrow> string" where
  "String env (Str s) = s"
| "String env (Num n) = numToString env n"
| "String env (Bool b) = (if b then ''true'' else ''false'')"
| "String env (DateObj d) = dateToString env d"
| "String env Undefined = ''undefined''"
| "String env Null = ''null''"

text \<open>
  The test \<^verbatim>\<open>timeVal !== undefined && timeVal !== null && String(timeVal).trim() !== ''\<close>.
  The string of a number is never blank, whatever its digits are.
\<close>

fun time_present :: "host \<Rightarrow> cell \<Rightarrow> bool" where
  "time_present env Undefined = False"
| "time_present env Null = False"
| "time_present env (Num n) = True"
| "time_present env v = (trim (String env v) \<noteq> [])"

text \<open>\<^verbatim>\<open>new Date((serial - 25569) * 86400 * 1000)\<close>.\<close>

definition serialDate :: "number \<Rightarrow> jsdate" where
  "serialDate v = newDate (fmul (fmul (fsub v (Fin 25569)) (Fin 86400)) (Fin 1000))"

definition date_sep :: "char \<Rightarrow> bool" where
  "date_sep c = (c = CHR ''/'' \<or> c = CHR ''-'' \<or> is_ws c)"

definition date_time_sep :: "char \<Rightarrow> bool" where
  "date_time_sep c = (c = CHR ''/'' \<or> c = CHR ''-'' \<or> is_ws c \<or> c = CHR '':'')"

text \<open>Sub-case 1.2, step 1: the date part when a separate time cell exists.\<close>

definition datePart :: "host \<Rightarrow> cell \<Rightarrow> jsdate" where
  "datePart env dateVal = (case dateVal of
      Num n \<Rightarrow> serialDate n
    | DateObj x \<Rightarrow> x
    | _ \<Rightarrow>
       (let dStr = trim (String env dateVal); parts = split_on date_sep dStr in
        if 3 \<le> length parts then
          (let p1 = parseInt (parts ! 0); p2 = parseInt (parts ! 1); p3 = parseInt (parts ! 2) in
           if flt (Fin 1000) p3 then newDateLocal (tz env) p3 (fsub p2 (Fin 1)) p1 (Fin 0) (Fin 0)
           else if flt (Fin 1000) p1 then newDateLocal (tz env) p1 (fsub p2 (Fin 1)) p3 (Fin 0) (Fin 0)
           else Date (now env))
        else nativeParse env dStr))"

text \<open>Sub-case 1.2, step 2: the hours and minutes of the time cell.\<close>

definition timePart :: "host \<Rightarrow> cell \<Rightarrow> number \<times> number" where
  "timePart env timeVal = (case timeVal of
      Num n \<Rightarrow>
       (let totalSeconds = Math_round (fmul n (Fin 86400)) in
        (Math_floor (fdiv totalSeconds (Fin 3600)),
         Math_floor (fdiv (fmod totalSeconds (Fin 3600)) (Fin 60))))
    | _ \<Rightarrow>
       (let tStr = trim (String env timeVal); tParts = split_on (\<lambda>c. c = CHR '':'') tStr in
        if 2 \<le> length tParts then (parseInt (tParts ! 0), parseInt (tParts ! 1))
        else (Fin 0, Fin 0)))"

text \<open>
  The value of \<^verbatim>\<open>finalDate\<close> when the validity gate is reached; \<open>None\<close> is \<^verbatim>\<open>null\<close>.
\<close>

definition resolveDate :: "host \<Rightarrow> cell \<Rightarrow> cell \<Rightarrow> jsdate option" where
  "resolveDate env dateVal timeVal =
     (if time_present env timeVal then
        (case (dateVal, timeVal) of
           (Num dv, Num tv) \<Rightarrow>
             (let total = fadd (Math_floor dv) (fmod tv (Fin 1)) in Some (serialDate total))
         | _ \<Rightarrow>
             (let d = datePart env dateVal; hm = timePart env timeVal in
              if \<not> isNaN (getTime d) then Some (setHours (tz env) d (fst hm) (snd hm) (Fin 0) (Fin 0))
              else None))
      else
        (case dateVal of
           Num dv \<Rightarrow> Some (serialDate dv)
         | Str ds \<Rightarrow>
            (let d0 = nativeParse env ds;
                 d = (if isNaN (getTime d0) then
                        (let parts = split_on date_time_sep ds in
                         if 5 \<le> length parts then
                           newDateLocal (tz env) (parseInt (parts ! 2))
                             (fsub (parseInt (parts ! 1)) (Fin 1)) (parseInt (parts ! 0))
                             (parseInt (parts ! 3)) (parseInt (parts ! 4))
                         else d0)
                      else d0)
             in if \<not> isNaN (getTime d) then Some d else None)
         | _ \<Rightarrow> None))"

text \<open>The validity gate and the zeroing of seconds and milliseconds.\<close>

definition parseDateTime :: "host \<Rightarrow> cell \<Rightarrow> cell \<Rightarrow> jsdate option" where
  "parseDateTime env dateVal timeVal = (case resolveDate env dateVal timeVal of
      None \<Rightarrow> None
    | Some finalDate \<Rightarrow>
        if \<not> isNaN (getTime finalDate) \<and> flt (Fin 1990) (getFullYear (tz env) finalDate)
        then Some (setSeconds (tz env) finalDate (Fin 0) (Fin 0))
        else None)"

text \<open>A host in UTC whose native parser accepts nothing, for evaluating examples.\<close>

definition utc_host :: host where
  "utc_host = \<lparr> tz = 0, now = 1700000000000, nativeParse = (\<lambda>s. InvalidDate),
       fmtHourLabel = (\<lambda>d. []), fmtDate = (\<lambda>d. []), fmtTime = (\<lambda>d. []),
       fmtDateTime = (\<lambda>d. []), fmtMonth = (\<lambda>d. []), numToString = (\<lambda>n. ''0''),
       dateToString = (\<lambda>d. ''Invalid Date'') \<rparr>"

subsection \<open>The grid extractor and the multi-file merger\<close>

text \<open>
  A file is represented by the grid that the spreadsheet library decodes from its first
  sheet: a list of rows, each a list of cells. A cell past the end of its row is
  \<^verbatim>\<open>undefined\<close>, and so is a row whose index is outside the grid.
\<close>

type_synonym grid = "cell list list"

record ColumnMapping =
  dateCol :: nat
  dateRow :: nat
  timeCol :: "nat option"
  timeRow :: "nat option"
  activeCol :: nat
  activeRow :: nat
  inductiveCol :: nat
  inductiveRow :: nat
  capacitiveCol :: nat
  capacitiveRow :: nat
  cpeRow :: "nat option"
  cpeCol :: "nat option"

record TelemetryRow =
  timestamp :: jsdate
  activePower :: number
  inductivePower :: number
  capacitivePower :: number

definition rowAt :: "grid \<Rightarrow> int \<Rightarrow> cell list option" where
  "rowAt jsonData i = (if 0 \<le> i \<and> i < int (length jsonData) then Some (jsonData ! nat i) else None)"

definition cellAt :: "cell list \<Rightarrow> nat \<Rightarrow> cell" where
  "cellAt row c = (if c < length row then row ! c else Undefined)"

definition timeOffset :: "ColumnMapping \<Rightarrow> int" where
  "timeOffset mapping = (case timeRow mapping of Some r \<Rightarrow> int r - int (dateRow mapping) | None \<Rightarrow> 0)"

definition activeOffset :: "ColumnMapping \<Rightarrow> int" where
  "activeOffset mapping = int (activeRow mapping) - int (dateRow mapping)"

definition inductiveOffset :: "ColumnMapping \<Rightarrow> int" where
  "inductiveOffset mapping = int (inductiveRow mapping) - int (dateRow mapping)"

definition capacitiveOffset :: "ColumnMapping \<Rightarrow> int" where
  "capacitiveOffset mapping = int (capacitiveRow mapping) - int (dateRow mapping)"

text \<open>The time cell of row \<open>i\<close>: \<^verbatim>\<open>undefined\<close> unless a time column is mapped and its row exists.\<close>

definition timeCell :: "ColumnMapping \<Rightarrow> grid \<Rightarrow> nat \<Rightarrow> cell" where
  "timeCell mapping jsonData i = (case timeCol mapping of
      None \<Rightarrow> Undefined
    | Some c \<Rightarrow> (case rowAt jsonData (int i + timeOffset mapping) of
                   None \<Rightarrow> Undefined | Some r \<Rightarrow> cellAt r c))"

text \<open>A quantity of row \<open>i\<close>: 0 unless the row at the field's offset exists.\<close>

definition fieldValue :: "grid \<Rightarrow> int \<Rightarrow> nat \<Rightarrow> number" where
  "fieldValue jsonData j c = (case rowAt jsonData j of
      None \<Rightarrow> Fin 0 | Some r \<Rightarrow> parseValue (cellAt r c))"

text \<open>
  The body of the row loop: what row \<open>i\<close> pushes onto \<^verbatim>\<open>allRows\<close>, nothing or one reading.
\<close>

definition rowReadings :: "host \<Rightarrow> ColumnMapping \<Rightarrow> grid \<Rightarrow> nat \<Rightarrow> TelemetryRow list" where
  "rowReadings env mapping jsonData i =
     (let row = jsonData ! i in
      if row = [] then []
      else
        (let dateVal = cellAt row (dateCol mapping);
             timeVal = timeCell mapping jsonData i
         in case parseDateTime env dateVal timeVal of
              None \<Rightarrow> []
            | Some date \<Rightarrow>
               [\<lparr> timestamp = date,
                  activePower = fieldValue jsonData (int i + activeOffset mapping) (activeCol mapping),
                  inductivePower = fieldValue jsonData (int i + inductiveOffset mapping) (inductiveCol mapping),
                  capacitivePower = fieldValue jsonData (int i + capacitiveOffset mapping) (capacitiveCol mapping) \<rparr>]))"

text \<open>The row loop over the indices still to visit, and the file loop around it.\<close>

fun extractRows :: "host \<Rightarrow> ColumnMapping \<Rightarrow> grid \<Rightarrow> nat list \<Rightarrow> TelemetryRow list \<Rightarrow> TelemetryRow list" where
  "extractRows env mapping jsonData [] allRows = allRows"
| "extractRows env mapping jsonData (i # rest) allRows =
     extractRows env mapping jsonData rest (allRows @ rowReadings env mapping jsonData i)"




text \<open>
  The sort key of \<^verbatim>\<open>(a, b) => a.timestamp.getTime() - b.timestamp.getTime()\<close>. The
  array sort is stable; every date that reaches it is valid, so the second case is never
  consulted.
\<close>

fun time_key :: "jsdate \<Rightarrow> int" where
  "time_key (Date t) = t"
| "time_key InvalidDate = 0"



subsection \<open>The hourly aggregator\<close>

datatype error = RangeError

record HourlyData =
  timestampH :: jsdate
  hourLabel :: string
  activeAvg :: number
  activeMax :: number
  activeMin :: number
  inductiveAvg :: number
  inductiveMax :: number
  inductiveMin :: number
  capacitiveAvg :: number
  capacitiveMax :: number
  capacitiveMin :: number

text \<open>
  The grouping key of a reading is the ISO string of its timestamp with the local minutes,
  seconds and milliseconds set to zero. ISO strings and valid time values correspond one to
  one, so the key is kept as the time value; \<^verbatim>\<open>toISOString\<close> throws a
  \<^verbatim>\<open>RangeError\<close> on an invalid date.
\<close>

definition hourStart :: "host \<Rightarrow> TelemetryRow \<Rightarrow> jsdate" where
  "hourStart env row = setMinutes (tz env) (timestamp row) (Fin 0) (Fin 0) (Fin 0)"

text \<open>
  \<^verbatim>\<open>if (!grouped[key]) grouped[key] = []; grouped[key].push(row)\<close> on an object whose keys
  are listed in insertion order.
\<close>

fun push_group :: "int \<Rightarrow> TelemetryRow \<Rightarrow> (int \<times> TelemetryRow list) list \<Rightarrow> (int \<times> TelemetryRow list) list" where
  "push_group key row [] = [(key, [row])]"
| "push_group key row ((k, rs) # grouped) =
     (if k = key then (k, rs @ [row]) # grouped else (k, rs) # push_group key row grouped)"

fun groupRows :: "host \<Rightarrow> TelemetryRow list \<Rightarrow> (int \<times> TelemetryRow list) list \<Rightarrow> error + (int \<times> TelemetryRow list) list" where
  "groupRows env [] grouped = Inr grouped"
| "groupRows env (row # rows) grouped =
     (case hourStart env row of
        InvalidDate \<Rightarrow> Inl RangeError
      | Date key \<Rightarrow> groupRows env rows (push_group key row grouped))"

text \<open>\<^verbatim>\<open>xs.reduce((a, b) => a + b, 0) / group.length\<close>.\<close>

definition average :: "number list \<Rightarrow> nat \<Rightarrow> number" where
  "average xs n = fdiv (foldl fadd (Fin 0) xs) (num (int n))"

definition hourlyRecord :: "host \<Rightarrow> int \<times> TelemetryRow list \<Rightarrow> HourlyData" where
  "hourlyRecord env kg =
     (let group = snd kg; date = Date (fst kg);
          actives = map activePower group;
          inductives = map inductivePower group;
          capacitives = map capacitivePower group
      in \<lparr> timestampH = date, hourLabel = fmtHourLabel env date,
           activeAvg = average actives (length group),
           activeMax = Math_max actives, activeMin = Math_min actives,
           inductiveAvg = average inductives (length group),
           inductiveMax = Math_max inductives, inductiveMin = Math_min inductives,
           capacitiveAvg = average capacitives (length group),
           capacitiveMax = Math_max capacitives, capacitiveMin = Math_min capacitives \<rparr>)"

definition aggregateToHourly :: "host \<Rightarrow> TelemetryRow list \<Rightarrow> error + HourlyData list" where
  "aggregateToHourly env rows = (case groupRows env rows [] of
      Inl e \<Rightarrow> Inl e
    | Inr grouped \<Rightarrow>
        Inr (sort_key (\<lambda>h. time_key (timestampH h)) (map (hourlyRecord env) grouped)))"

subsection \<open>The exporter\<close>

datatype resolution = hourly | daily | monthly

record ProcessedRow =
  timestampP :: jsdate
  date :: string
  time :: string
  dateTime :: string
  active :: number
  inductiveP :: number
  capacitive :: number

record Bucket =
  timestampB :: jsdate
  count :: nat
  actSum :: number
  indSum :: number
  capSum :: number

definition bucketKey :: "host \<Rightarrow> resolution \<Rightarrow> HourlyData \<Rightarrow> string" where
  "bucketKey env res d = (if res = daily then fmtDate env (timestampH d) else fmtMonth env (timestampH d))"

definition bucketStart :: "host \<Rightarrow> resolution \<Rightarrow> HourlyData \<Rightarrow> jsdate" where
  "bucketStart env res d =
     (if res = daily then setHours (tz env) (timestampH d) (Fin 0) (Fin 0) (Fin 0) (Fin 0)
      else setHours (tz env) (setDate (tz env) (timestampH d) (Fin 1)) (Fin 0) (Fin 0) (Fin 0) (Fin 0))"

text \<open>
  One step of the \<^verbatim>\<open>forEach\<close>: the bucket of the key is created with zero sums when it
  is missing, then counted and added to.
\<close>

definition addTo :: "Bucket \<Rightarrow> HourlyData \<Rightarrow> Bucket" where
  "addTo g d = g \<lparr> count := count g + 1, actSum := fadd (actSum g) (activeAvg d),
                   indSum := fadd (indSum g) (inductiveAvg d),
                   capSum := fadd (capSum g) (capacitiveAvg d) \<rparr>"

fun add_bucket :: "string \<Rightarrow> jsdate \<Rightarrow> HourlyData \<Rightarrow> (string \<times> Bucket) list \<Rightarrow> (string \<times> Bucket) list" where
  "add_bucket key ts d [] =
     [(key, addTo \<lparr> timestampB = ts, count = 0, actSum = Fin 0, indSum = Fin 0, capSum = Fin 0 \<rparr> d)]"
| "add_bucket key ts d ((k, g) # grouped) =
     (if k = key then (k, addTo g d) # grouped else (k, g) # add_bucket key ts d grouped)"

text \<open>
  The first step of \<^verbatim>\<open>generateCSV\<close>: the rows prepared for the export. The keys of
  \<^verbatim>\<open>grouped\<close> are enumerated in the order of their creation, as \<^verbatim>\<open>Object.keys\<close>
  enumerates the labels of a locale formatter (none of them an array index).
\<close>

definition processedData :: "host \<Rightarrow> resolution \<Rightarrow> HourlyData list \<Rightarrow> ProcessedRow list" where
  "processedData env res data =
     (if res = hourly then
        map (\<lambda>d. \<lparr> timestampP = timestampH d, date = fmtDate env (timestampH d),
                   time = fmtTime env (timestampH d), dateTime = fmtDateTime env (timestampH d),
                   active = activeAvg d, inductiveP = inductiveAvg d, capacitive = capacitiveAvg d \<rparr>) data
      else
        map (\<lambda>kg. \<lparr> timestampP = timestampB (snd kg), date = fst kg, time = [], dateTime = fst kg,
                    active = actSum (snd kg), inductiveP = indSum (snd kg),
                    capacitive = capSum (snd kg) \<rparr>)
            (foldl (\<lambda>grouped d. add_bucket (bucketKey env res d) (bucketStart env res d) d grouped) [] data))"

text \<open>The decimal digits of a natural number.\<close>

fun dec :: "nat \<Rightarrow> string" where
  "dec n = (if n < 10 then [''0123456789'' ! n] else dec (n div 10) @ [''0123456789'' ! (n mod 10)])"

declare dec.simps [simp del]

text \<open>
  \<^verbatim>\<open>x.toFixed(2)\<close>: the integer nearest to a hundred times the magnitude, the larger one
  on a tie, written with at least one digit before the point and two after it; from
  \<open>10 ^ 21\<close> on, and for NaN and the infinities, the string of the number itself.
\<close>

definition toFixed2 :: "host \<Rightarrow> number \<Rightarrow> string" where
  "toFixed2 env x = (case x of
      NaN \<Rightarrow> ''NaN'' | PInf \<Rightarrow> ''Infinity'' | NInf \<Rightarrow> ''-Infinity''
    | Fin r \<Rightarrow>
       (let s = (if r < 0 then ''-'' else []); a = \<bar>r\<bar> in
        if 10 ^ 21 \<le> a then s @ numToString env (Fin a)
        else
          (let m = dec (nat \<lfloor>a * 100 + 1 / 2\<rfloor>);
               m' = (if length m \<le> 2 then replicate (3 - length m) (CHR ''0'') @ m else m)
           in s @ take (length m' - 2) m' @ ''.'' @ drop (length m' - 2) m')))"

text \<open>\<^verbatim>\<open>v.toFixed(2).replace('.', ',')\<close>, the text of an exported value.\<close>

definition formatValue :: "host \<Rightarrow> number \<Rightarrow> string" where
  "formatValue env v = replace_first (CHR ''.'') (CHR '','') (toFixed2 env v)"

text \<open>The second and third steps: the header cells and the cells of each row.\<close>

record Columns =
  activeC :: bool
  inductiveC :: bool
  capacitiveC :: bool

record ExportConfig =
  resolution :: resolution
  splitDateTime :: bool
  columns :: Columns

definition csvHeaders :: "ExportConfig \<Rightarrow> string list" where
  "csvHeaders config =
     (if splitDateTime config
      then ''Data'' # (if resolution config = hourly then [''Hora''] else [])
      else [''Per'' @ [CHR 0xED] @ ''odo''])
     @ (if activeC (columns config)
        then [if resolution config = hourly then ''Ativa (kW)'' else ''Ativa (kWh)''] else [])
     @ (if inductiveC (columns config)
        then [if resolution config = hourly then ''Indutiva (kVAr)'' else ''Indutiva (kVArh)''] else [])
     @ (if capacitiveC (columns config)
        then [if resolution config = hourly then ''Capacitiva (kVAr)'' else ''Capacitiva (kVArh)''] else [])"

text \<open>The cells of one exported row: the period, then the text of each enabled quantity.\<close>

definition csvRow :: "host \<Rightarrow> ExportConfig \<Rightarrow> ProcessedRow \<Rightarrow> string list" where
  "csvRow env config d =
     (if splitDateTime config
      then date d # (if resolution config = hourly then [time d] else [])
      else [dateTime d])
     @ (if activeC (columns config) then [formatValue env (active d)] else [])
     @ (if inductiveC (columns config) then [formatValue env (inductiveP d)] else [])
     @ (if capacitiveC (columns config) then [formatValue env (capacitive d)] else [])"

definition csvRows :: "host \<Rightarrow> ExportConfig \<Rightarrow> HourlyData list \<Rightarrow> string list list" where
  "csvRows env config data = map (csvRow env config) (processedData env (resolution config) data)"

text \<open>\<^verbatim>\<open>xs.join(sep)\<close>.\<close>

fun join :: "string \<Rightarrow> string list \<Rightarrow> string" where
  "join sep [] = []"
| "join sep [x] = x"
| "join sep (x # y # zs) = x @ sep @ join sep (y # zs)"

text \<open>
  The exported document, after its leading byte-order mark (a code unit above 255): the
  header line and the row lines, cells joined by semicolons and lines by line feeds.
\<close>

definition generateCSV :: "host \<Rightarrow> HourlyData list \<Rightarrow> ExportConfig \<Rightarrow> string" where
  "generateCSV env data config =
     join [CHR 0x0A] (join '';'' (csvHeaders config) # map (join '';'') (csvRows env config data))"

text \<open>
  Re-summing an hourly export by calendar day, in the words of the specification: the day
  labels in order of first appearance, and for each label and quantity the sum, from zero
  and in export order, of the rows that carry the label.
\<close>

definition firsts :: "'a list \<Rightarrow> 'a list" where
  "firsts xs = rev (remdups (rev xs))"

definition total :: "(ProcessedRow \<Rightarrow> number) \<Rightarrow> string \<Rightarrow> ProcessedRow list \<Rightarrow> number" where
  "total q k rows = foldl fadd (Fin 0) (map q (filter (\<lambda>r. date r = k) rows))"

definition resumByDay :: "ProcessedRow list \<Rightarrow> (string \<times> number \<times> number \<times> number) list" where
  "resumByDay rows =
     map (\<lambda>k. (k, total active k rows, total inductiveP k rows, total capacitive k rows))
         (firsts (map date rows))"

text \<open>
  The same re-summing on the exported text of an hourly export whose rows are a date, a
  time and one cell per enabled quantity: each cell is read back as the value normalizer
  reads it, the cells of a day are added from zero in export order, and the sum is written
  as the exporter writes a value.
\<close>

definition resumExported :: "host \<Rightarrow> string list list \<Rightarrow> string list list" where
  "resumExported env rows =
     map (\<lambda>k. k # map (\<lambda>j. formatValue env
                              (foldl fadd (Fin 0)
                                 (map (\<lambda>r. parseValue (Str (r ! j))) (filter (\<lambda>r. take 1 r = [k]) rows))))
                     [2 ..< (case rows of [] \<Rightarrow> 0 | r # rest \<Rightarrow> length r)])
         (firsts (concat (map (take 1) rows)))"

text \<open>
  The cells of a day in the words of the specification: the day label, then the text of
  each enabled quantity's sum.
\<close>

definition dayRow :: "host \<Rightarrow> Columns \<Rightarrow> string \<times> number \<times> number \<times> number \<Rightarrow> string list" where
  "dayRow env cols x = (case x of (k, a, i, c) \<Rightarrow>
     k # (if activeC cols then [formatValue env a] else [])
       @ (if inductiveC cols then [formatValue env i] else [])
       @ (if capacitiveC cols then [formatValue env c] else []))"


subsection \<open>Ranges and example data\<close>

text \<open>
  A time value within the range of \<^verbatim>\<open>Date\<close> and a local offset of at most a day: the
  arithmetic of the date setters is exact on them.
\<close>

definition in_range :: "int \<Rightarrow> int \<Rightarrow> bool" where
  "in_range z t = (\<bar>t\<bar> \<le> 8640000000000000 \<and> \<bar>z\<bar> \<le> 1440)"

text \<open>A sheet with a text row between two data rows, and a mapping that reads it.\<close>

definition demo_mapping :: ColumnMapping where
  "demo_mapping = \<lparr> dateCol = 0, dateRow = 0, timeCol = None, timeRow = None,
      activeCol = 1, activeRow = 0, inductiveCol = 2, inductiveRow = 0,
      capacitiveCol = 1, capacitiveRow = 1, cpeRow = None, cpeCol = None \<rparr>"

definition demo_grid :: grid where
  "demo_grid = [[Num (Fin 45000), Str ''12,5'', Num (Fin 1)],
                [Str ''total'', Str ''x''],
                [Num (Fin 45001), Num (Fin 3), Num (Fin 2)]]"


text \<open>The sums of the buckets alone, as the \<^verbatim>\<open>forEach\<close> of the exporter updates them.\<close>

fun add_sums :: "string \<Rightarrow> number \<times> number \<times> number \<Rightarrow> (string \<times> number \<times> number \<times> number) list
    \<Rightarrow> (string \<times> number \<times> number \<times> number) list" where
  "add_sums key v [] = [(key, fadd (Fin 0) (fst v), fadd (Fin 0) (fst (snd v)), fadd (Fin 0) (snd (snd v)))]"
| "add_sums key v ((k, s) # rest) =
     (if k = key
      then (k, fadd (fst s) (fst v), fadd (fst (snd s)) (fst (snd v)), fadd (snd (snd s)) (snd (snd v))) # rest
      else (k, s) # add_sums key v rest)"

definition bucketSums :: "Bucket \<Rightarrow> number \<times> number \<times> number" where
  "bucketSums b = (actSum b, indSum b, capSum b)"

definition avgs :: "HourlyData \<Rightarrow> number \<times> number \<times> number" where
  "avgs d = (activeAvg d, inductiveAvg d, capacitiveAvg d)"

definition sumOver :: "('a \<Rightarrow> number) \<Rightarrow> 'a list \<Rightarrow> number" where
  "sumOver q xs = foldl fadd (Fin 0) (map q xs)"

text \<open>
  The record of an hour that holds a single reading, and the reading that carries the
  values of a record: what idempotence of the aggregator compares.
\<close>

definition asRecord :: "host \<Rightarrow> TelemetryRow \<Rightarrow> HourlyData" where
  "asRecord env r =
     \<lparr> timestampH = timestamp r, hourLabel = fmtHourLabel env (timestamp r),
       activeAvg = activePower r, activeMax = activePower r, activeMin = activePower r,
       inductiveAvg = inductivePower r, inductiveMax = inductivePower r, inductiveMin = inductivePower r,
       capacitiveAvg = capacitivePower r, capacitiveMax = capacitivePower r,
       capacitiveMin = capacitivePower r \<rparr>"

definition asReading :: "HourlyData \<Rightarrow> TelemetryRow" where
  "asReading h =
     \<lparr> timestamp = timestampH h, activePower = activeAvg h,
       inductivePower = inductiveAvg h, capacitivePower = capacitiveAvg h \<rparr>"

text \<open>An input of one reading per hour, each at the start of its hour and with binary64 values.\<close>

definition hourly_input :: "host \<Rightarrow> TelemetryRow list \<Rightarrow> bool" where
  "hourly_input env rows =
     (distinct (map timestamp rows)
      \<and> (\<forall>r \<in> set rows. timestamp r \<noteq> InvalidDate \<and> hourStart env r = timestamp r
            \<and> is_double (activePower r) \<and> is_double (inductivePower r)
            \<and> is_double (capacitivePower r)))"

text \<open>
  The readings that contribute to a record, the exact value of a finite number, the exact
  arithmetic mean, and what it means for two numbers to be the extrema of a list.
\<close>

definition bucket :: "host \<Rightarrow> TelemetryRow list \<Rightarrow> HourlyData \<Rightarrow> TelemetryRow list" where
  "bucket env rows h = filter (\<lambda>r. hourStart env r = timestampH h) rows"

fun val :: "number \<Rightarrow> rat" where
  "val (Fin r) = r"
| "val x = 0"

definition exact_mean :: "number list \<Rightarrow> rat" where
  "exact_mean vs = sum_list (map val vs) / of_nat (length vs)"

definition extrema :: "number list \<Rightarrow> number \<Rightarrow> number \<Rightarrow> bool" where
  "extrema vs lo hi = (lo \<in> set vs \<and> hi \<in> set vs \<and> (\<forall>v \<in> set vs. fle lo v \<and> fle v hi))"

definition finite_rows :: "TelemetryRow list \<Rightarrow> bool" where
  "finite_rows rows = (\<forall>r \<in> set rows. isFinite (activePower r) \<and> isFinite (inductivePower r)
                                      \<and> isFinite (capacitivePower r))"

text \<open>
  Example readings, in UTC on 1 January 2024: three readings of 0.1 kW (the binary64 number
  nearest to one tenth) at 08:00, 08:15 and 08:30, with the record the aggregator makes of
  them; and the readings of 10 and 20 kW at 08:15 and 08:45, with theirs.
\<close>

definition tenth :: rat where
  "tenth = 3602879701896397 / 36028797018963968"

definition reading :: "int \<Rightarrow> rat \<Rightarrow> TelemetryRow" where
  "reading t p = \<lparr> timestamp = Date t, activePower = Fin p, inductivePower = Fin 0,
                   capacitivePower = Fin 0 \<rparr>"

definition demo_tenths :: "TelemetryRow list" where
  "demo_tenths = [reading 1704096000000 tenth, reading 1704096900000 tenth, reading 1704097800000 tenth]"

definition demo_tenths_hour :: HourlyData where
  "demo_tenths_hour =
     \<lparr> timestampH = Date 1704096000000, hourLabel = [],
       activeAvg = Fin (7205759403792795 / 72057594037927936),
       activeMax = Fin tenth, activeMin = Fin tenth,
       inductiveAvg = Fin 0, inductiveMax = Fin 0, inductiveMin = Fin 0,
       capacitiveAvg = Fin 0, capacitiveMax = Fin 0, capacitiveMin = Fin 0 \<rparr>"

definition demo_pair :: "TelemetryRow list" where
  "demo_pair = [reading 1704096900000 10, reading 1704098700000 20]"

definition demo_pair_hour :: HourlyData where
  "demo_pair_hour =
     \<lparr> timestampH = Date 1704096000000, hourLabel = [],
       activeAvg = Fin 15, activeMax = Fin 20, activeMin = Fin 10,
       inductiveAvg = Fin 0, inductiveMax = Fin 0, inductiveMin = Fin 0,
       capacitiveAvg = Fin 0, capacitiveMax = Fin 0, capacitiveMin = Fin 0 \<rparr>"

text \<open>
  A host in UTC that labels a date by the number of its day since the epoch, after the
  word day, and records of three hours on two days.
\<close>

definition dayLabel :: "jsdate \<Rightarrow> string" where
  "dayLabel d = (case d of Date t \<Rightarrow> ''day '' @ dec (nat (Day t)) | InvalidDate \<Rightarrow> ''Invalid Date'')"

definition day_host :: host where
  "day_host = utc_host \<lparr> fmtDate := dayLabel \<rparr>"

definition demo_days :: "HourlyData list" where
  "demo_days = [asRecord day_host (reading 1704096000000 10),
                asRecord day_host (reading 1704099600000 20),
                asRecord day_host (reading 1704182400000 5)]"

definition demo_hours :: "TelemetryRow list" where
  "demo_hours = [reading 1704099600000 (25 / 2), reading 1704096000000 3]"

text \<open>
  The same host labelling a time by its hour; three hours of one day with an average of
  1/256 kW each, and the export of the active column alone, date and time split.
\<close>

definition clockLabel :: "jsdate \<Rightarrow> string" where
  "clockLabel d = (case d of Date t \<Rightarrow> dec (nat (HourFromTime t)) @ '':00'' | InvalidDate \<Rightarrow> ''Invalid Date'')"

definition export_host :: host where
  "export_host = day_host \<lparr> fmtTime := clockLabel \<rparr>"

definition small_hours :: "HourlyData list" where
  "small_hours = [asRecord export_host (reading 1704096000000 (1 / 256)),
                  asRecord export_host (reading 1704099600000 (1 / 256)),
                  asRecord export_host (reading 1704103200000 (1 / 256))]"

definition active_only :: "resolution \<Rightarrow> ExportConfig" where
  "active_only res = \<lparr> resolution = res, splitDateTime = True,
       columns = \<lparr> activeC = True, inductiveC = False, capacitiveC = False \<rparr> \<rparr>"

section \<open>Lemmas\<close>

subsection \<open>Rounding on the binary64 grid\<close>

text \<open>
  Rounding leaves every value on the binary64 grid unchanged, in particular every integer
  up to \<open>2 ^ 53\<close>; the time-value arithmetic of the setters is therefore exact.
\<close>

lemma ilog2_bounds:
  assumes "0 < r"
  shows "2 powi (ilog2 r) \<le> r \<and> r < 2 powi (ilog2 r + 1)"
proof -
  obtain p q where pq: "quotient_of r = (p, q)" by (cases "quotient_of r")
  have q: "0 < q" using pq quotient_of_denom_pos by blast
  have r: "r = of_int p / of_int q" using pq quotient_of_div by blast
  have p: "0 < p" using assms q r by (simp add: zero_less_divide_iff)
  define lp where "lp = bitlen p"
  define lq where "lq = bitlen q"
  have bp: "2 ^ nat (lp - 1) \<le> p" "p < 2 ^ nat lp" using bitlen_bounds[OF p] by (auto simp: lp_def)
  have bq: "2 ^ nat (lq - 1) \<le> q" "q < 2 ^ nat lq" using bitlen_bounds[OF q] by (auto simp: lq_def)
  have lp1: "1 \<le> lp" using p by (simp add: lp_def bitlen_alt_def)
  have lq1: "1 \<le> lq" using q by (simp add: lq_def bitlen_alt_def)
  have P1: "(2::rat) powi (lp - 1) \<le> of_int p"
  proof -
    have "(of_int (2 ^ nat (lp - 1)) :: rat) \<le> of_int p" using bp(1) by (simp only: of_int_le_iff)
    then show ?thesis using lp1 by (simp add: power_int_def)
  qed
  have P2: "(of_int p :: rat) < 2 powi lp"
  proof -
    have "(of_int p :: rat) < of_int (2 ^ nat lp)" using bp(2) by (simp only: of_int_less_iff)
    then show ?thesis using lp1 by (simp add: power_int_def)
  qed
  have Q1: "(2::rat) powi (lq - 1) \<le> of_int q"
  proof -
    have "(of_int (2 ^ nat (lq - 1)) :: rat) \<le> of_int q" using bq(1) by (simp only: of_int_le_iff)
    then show ?thesis using lq1 by (simp add: power_int_def)
  qed
  have Q2: "(of_int q :: rat) < 2 powi lq"
  proof -
    have "(of_int q :: rat) < of_int (2 ^ nat lq)" using bq(2) by (simp only: of_int_less_iff)
    then show ?thesis using lq1 by (simp add: power_int_def)
  qed
  have qpos: "(0::rat) < of_int q" using q by simp
  have up: "r < 2 powi (lp - lq + 1)"
  proof -
    have "of_int p < (2::rat) powi lp" by (rule P2)
    also have "\<dots> = 2 powi (lp - lq + 1) * 2 powi (lq - 1)"
      by (simp add: power_int_add[symmetric])
    also have "\<dots> \<le> 2 powi (lp - lq + 1) * of_int q"
      using Q1 by (simp add: mult_left_mono)
    finally show ?thesis using qpos by (simp add: r pos_divide_less_eq)
  qed
  have lo: "2 powi (lp - lq - 1) \<le> r"
  proof -
    have "(2::rat) powi (lp - lq - 1) * of_int q \<le> 2 powi (lp - lq - 1) * 2 powi lq"
      using Q2 by (simp add: mult_left_mono)
    also have "\<dots> = 2 powi (lp - 1)" by (simp add: power_int_add[symmetric])
    also have "\<dots> \<le> of_int p" by (rule P1)
    finally show ?thesis using qpos by (simp add: r pos_le_divide_eq)
  qed
  show ?thesis
  proof (cases "2 powi (lp - lq) \<le> r")
    case True
    then have "ilog2 r = lp - lq" by (simp add: ilog2_def pq lp_def lq_def Let_def)
    with True up show ?thesis by simp
  next
    case False
    then have "ilog2 r = lp - lq - 1" by (simp add: ilog2_def pq lp_def lq_def Let_def)
    with False lo show ?thesis by simp
  qed
qed

lemma ilog2_unique:
  assumes "2 powi e \<le> r" "r < 2 powi (e + 1)"
  shows "ilog2 r = e"
proof -
  have r: "0 < r" using assms(1) by (meson less_le_trans zero_less_numeral zero_less_power_int)
  note b = ilog2_bounds[OF r]
  have 1: "ilog2 r < e + 1"
  proof (rule ccontr)
    assume "\<not> ilog2 r < e + 1"
    then have "(2::rat) powi (e + 1) \<le> 2 powi (ilog2 r)" by (intro power_int_increasing) auto
    with b assms show False by linarith
  qed
  have 2: "e < ilog2 r + 1"
  proof (rule ccontr)
    assume "\<not> e < ilog2 r + 1"
    then have "(2::rat) powi (ilog2 r + 1) \<le> 2 powi e" by (intro power_int_increasing) auto
    with b assms show False by linarith
  qed
  from 1 2 show ?thesis by simp
qed

lemma round_even_of_int: "round_even (of_int k) = k"
  by (simp add: round_even_def)

lemma rnd_on_grid:
  assumes "r \<noteq> 0" "2 powi e \<le> \<bar>r\<bar>" "\<bar>r\<bar> < 2 powi (e + 1)" "- 1022 \<le> e" "e < 1024"
    and "\<bar>r\<bar> / 2 powi (e - 52) = of_int k"
  shows "rnd r = Fin r"
proof -
  have il: "ilog2 \<bar>r\<bar> = e" using assms(2,3) by (rule ilog2_unique)
  have m: "max e (- 1022) = e" using assms(4) by simp
  have u: "(2::rat) powi (e - 52) \<noteq> 0" by simp
  have v: "of_int k * 2 powi (e - 52) = \<bar>r\<bar>" using assms(6) u by (simp add: field_simps)
  have "\<bar>r\<bar> < 2 powi 1024"
  proof -
    have "(2::rat) powi (e + 1) \<le> 2 powi 1024" using assms(5) by (intro power_int_increasing) auto
    with assms(3) show ?thesis by linarith
  qed
  then have nov: "\<not> 2 powi 1024 \<le> \<bar>r\<bar>" by simp
  have "sgn r * \<bar>r\<bar> = r" by (simp add: sgn_mult_abs)
  then show ?thesis
    using assms(1) nov by (simp add: rnd_def il m Let_def assms(6) round_even_of_int v del: power_int_numeral)
qed

lemma rnd_of_int:
  assumes "\<bar>n\<bar> \<le> 2 ^ 53"
  shows "rnd (of_int n) = Fin (of_int n)"
proof (cases "n = 0")
  case True
  then show ?thesis by (simp add: rnd_def)
next
  case False
  define r :: rat where "r = of_int n"
  have r0: "r \<noteq> 0" using False by (simp add: r_def)
  have a1: "1 \<le> \<bar>r\<bar>" using False by (simp add: r_def flip: of_int_abs)
  have a2: "\<bar>r\<bar> \<le> 2 ^ 53"
  proof -
    have "(of_int \<bar>n\<bar> :: rat) \<le> of_int (2 ^ 53)" using assms by (simp only: of_int_le_iff)
    then show ?thesis by (simp add: r_def)
  qed
  define e where "e = ilog2 \<bar>r\<bar>"
  have b: "2 powi e \<le> \<bar>r\<bar>" "\<bar>r\<bar> < 2 powi (e + 1)"
    using ilog2_bounds[of "\<bar>r\<bar>"] r0 by (simp_all add: e_def)
  have e0: "0 \<le> e"
  proof (rule ccontr)
    assume "\<not> 0 \<le> e"
    then have "(2::rat) powi (e + 1) \<le> 2 powi 0" by (intro power_int_increasing) auto
    with b(2) a1 show False by simp
  qed
  have e53: "e \<le> 53"
  proof (rule ccontr)
    assume "\<not> e \<le> 53"
    then have "(2::rat) powi 54 \<le> 2 powi e" by (intro power_int_increasing) auto
    with b(1) a2 show False by simp
  qed
  have "\<exists>k. \<bar>r\<bar> / 2 powi (e - 52) = of_int k"
  proof (cases "e \<le> 52")
    case True
    then have "(2::rat) powi (e - 52) = 1 / 2 ^ nat (52 - e)"
      by (simp add: power_int_def field_simps)
    then have "\<bar>r\<bar> / 2 powi (e - 52) = of_int (\<bar>n\<bar> * 2 ^ nat (52 - e))"
      by (simp add: r_def)
    then show ?thesis by blast
  next
    case False
    with e53 have e: "e = 53" by simp
    with b(1) a2 have "\<bar>r\<bar> = 2 ^ 53" by simp
    then have "\<bar>r\<bar> / 2 powi (e - 52) = of_int (2 ^ 52)" by (simp add: e)
    then show ?thesis by blast
  qed
  then obtain k where k: "\<bar>r\<bar> / 2 powi (e - 52) = of_int k" by blast
  have "rnd r = Fin r"
    using r0 b(1) b(2) _ _ k by (rule rnd_on_grid) (use e0 e53 in simp_all)
  then show ?thesis by (simp add: r_def)
qed

lemma rnd_Ints: "r \<in> \<int> \<Longrightarrow> \<bar>r\<bar> \<le> 9007199254740992 \<Longrightarrow> rnd r = Fin r"
proof -
  assume "r \<in> \<int>" and b: "\<bar>r\<bar> \<le> 9007199254740992"
  then obtain n where n: "r = of_int n" by (auto elim: Ints_cases)
  have "(of_int \<bar>n\<bar> :: rat) \<le> of_int 9007199254740992" using b n by simp
  then have "\<bar>n\<bar> \<le> 9007199254740992" by (simp only: of_int_le_iff)
  then have "\<bar>n\<bar> \<le> 2 ^ 53" by simp
  then show ?thesis using rnd_of_int n by simp
qed

lemma trunc_rat_of_int [simp]: "trunc_rat (of_int k) = k"
  by (simp add: trunc_rat_def)

lemma num_ops:
  "\<bar>a + b\<bar> \<le> 9007199254740992 \<Longrightarrow> fadd (num a) (num b) = num (a + b)"
  "\<bar>a - b\<bar> \<le> 9007199254740992 \<Longrightarrow> fsub (num a) (num b) = num (a - b)"
  "\<bar>a * b\<bar> \<le> 9007199254740992 \<Longrightarrow> fmul (num a) (num b) = num (a * b)"
  using rnd_of_int[of "a + b"] rnd_of_int[of "a - b"] rnd_of_int[of "a * b"]
  by (simp_all add: num_def fsub_def)

subsection \<open>The date setters at zero\<close>

lemma trunc_rat_0 [simp]: "trunc_rat 0 = 0"
  by (simp add: trunc_rat_def)

lemma ToInteger_num [simp]: "ToIntegerOrInfinity (num k) = num k"
  by (simp add: num_def)

lemma isFinite_num [simp]: "isFinite (num k)"
  by (simp add: num_def)

lemma Fin0_num: "Fin 0 = num 0"
  by (simp add: num_def)

lemma clock_split:
  "Day L * 86400000 + HourFromTime L * 3600000 + MinFromTime L * 60000 = L - L mod 60000"
proof -
  define q where "q = L div 60000"
  have d: "L div 86400000 = q div 1440" and h: "L div 3600000 = q div 60"
    by (simp_all add: q_def div_mult2_eq[symmetric])
  have e1: "q = (q div 60) * 60 + q mod 60"
    by simp
  have e2: "q div 60 = ((q div 60) div 24) * 24 + (q div 60) mod 24"
    by simp
  have e3: "(q div 60) div 24 = q div 1440"
    by (simp add: div_mult2_eq[symmetric])
  have e4: "L = q * 60000 + L mod 60000"
    by (simp add: q_def)
  have "(q div 1440) * 86400000 + ((q div 60) mod 24) * 3600000 + (q mod 60) * 60000 = L - L mod 60000"
    using e1 e2 e3 e4 by linarith
  then show ?thesis
    by (simp add: Day_def HourFromTime_def MinFromTime_def d h) (simp add: q_def)
qed

lemma hour_split:
  "Day L * 86400000 + HourFromTime L * 3600000 = L - L mod 3600000"
proof -
  define q where "q = L div 3600000"
  have d: "L div 86400000 = q div 24"
    by (simp add: q_def div_mult2_eq[symmetric])
  have e1: "q = (q div 24) * 24 + q mod 24"
    by simp
  have e4: "L = q * 3600000 + L mod 3600000"
    by (simp add: q_def)
  have "(q div 24) * 86400000 + (q mod 24) * 3600000 = L - L mod 3600000"
    using e1 e4 by linarith
  then show ?thesis
    by (simp add: Day_def HourFromTime_def d) (simp add: q_def)
qed

lemma MakeTime_num:
  assumes "0 \<le> h" "h < 24" "0 \<le> m" "m < 60"
  shows "MakeTime (num h) (num m) (num 0) (num 0) = num (h * 3600000 + m * 60000)"
proof -
  have 1: "fmul (num h) (num 3600000) = num (h * 3600000)"
    using assms by (intro num_ops(3)) simp
  have 2: "fmul (num m) (num 60000) = num (m * 60000)"
    using assms by (intro num_ops(3)) simp
  have 3: "fadd (num (h * 3600000)) (num (m * 60000)) = num (h * 3600000 + m * 60000)"
    using assms by (intro num_ops(1)) simp
  have 4: "fmul (num 0) (num 1000) = num 0"
    using num_ops(3)[of 0 1000] by simp
  have 5: "fadd (num (h * 3600000 + m * 60000)) (num 0) = num (h * 3600000 + m * 60000)"
    using num_ops(1)[of "h * 3600000 + m * 60000" 0] assms by simp
  have c: "Fin 3600000 = num 3600000" "Fin 60000 = num 60000" "Fin 1000 = num 1000"
    by (simp_all add: num_def)
  show ?thesis
    unfolding MakeTime_def c by (simp add: 1 2 3 4 5)
qed

lemma MakeDate_num:
  assumes "\<bar>d * 86400000\<bar> \<le> 9007199254740992" "\<bar>d * 86400000 + tm\<bar> \<le> 9007199254740992"
  shows "MakeDate (num d) (num tm) = num (d * 86400000 + tm)"
proof -
  have 1: "fmul (num d) (num 86400000) = num (d * 86400000)"
    using assms by (intro num_ops(3)) simp
  have 2: "fadd (num (d * 86400000)) (num tm) = num (d * 86400000 + tm)"
    using assms by (intro num_ops(1)) simp
  have c: "Fin 86400000 = num 86400000"
    by (simp add: num_def)
  show ?thesis
    unfolding MakeDate_def c by (simp add: 1 2 Let_def)
qed

lemma TimeClip_num: "\<bar>k\<bar> \<le> 8640000000000000 \<Longrightarrow> TimeClip (num k) = Date k"
proof -
  assume a: "\<bar>k\<bar> \<le> 8640000000000000"
  have "rat_of_int \<bar>k\<bar> \<le> rat_of_int 8640000000000000"
    using a by (simp only: of_int_le_iff)
  then have "\<not> 8640000000000000 < \<bar>rat_of_int k\<bar>" by simp
  then show ?thesis by (simp add: num_def)
qed

lemma TimeClip_UTC:
  assumes "\<bar>x\<bar> \<le> 9007199254740992" "\<bar>x - z * 60000\<bar> \<le> 8640000000000000"
  shows "TimeClip (UTC z (num x)) = Date (x - z * 60000)"
proof -
  have "fsub (num x) (num (z * 60000)) = num (x - z * 60000)"
    using assms by (intro num_ops(2)) simp
  then show ?thesis
    using assms(2) by (simp add: UTC_def TimeClip_num)
qed

lemma floor_bounds:
  fixes t k :: int
  assumes "\<bar>t\<bar> \<le> 8640000000000000" "0 < k" "k dvd 8640000000000000"
  shows "- 8640000000000000 \<le> t - t mod k" "t - t mod k \<le> t"
proof -
  obtain c where c: "8640000000000000 = k * c" using assms(3) unfolding dvd_def by blast
  have 1: "(t + k * c) mod k = t mod k" by simp
  have "0 \<le> t + k * c" using assms(1) c by simp
  then have "(t + k * c) mod k \<le> t + k * c" by (rule zmod_le_nonneg_dividend)
  then show "- 8640000000000000 \<le> t - t mod k"
    unfolding 1 using c by simp
  show "t - t mod k \<le> t" using assms(2) by simp
qed

lemma setSeconds_zero:
  assumes "in_range z t"
  shows "setSeconds z (Date t) (Fin 0) (Fin 0) = Date (t - t mod 60000)"
proof -
  define L where "L = LocalTime z t"
  have t: "\<bar>t\<bar> \<le> 8640000000000000" and z: "\<bar>z\<bar> \<le> 1440"
    using assms by (simp_all add: in_range_def)
  have Lb: "\<bar>L\<bar> \<le> 8640000086400000"
    using t z by (simp add: L_def LocalTime_def)
  have h: "0 \<le> HourFromTime L" "HourFromTime L < 24" "0 \<le> MinFromTime L" "MinFromTime L < 60"
    by (simp_all add: HourFromTime_def MinFromTime_def)
  have mt: "MakeTime (num (HourFromTime L)) (num (MinFromTime L)) (num 0) (num 0)
            = num (HourFromTime L * 3600000 + MinFromTime L * 60000)"
    using h by (rule MakeTime_num)
  have dd: "Day L * 86400000 = L - L mod 86400000"
    by (simp add: Day_def minus_mod_eq_div_mult)
  have m1: "0 \<le> L mod 86400000" "L mod 86400000 < 86400000" "0 \<le> L mod 60000" "L mod 60000 < 60000"
    by simp_all
  have cs: "Day L * 86400000 + (HourFromTime L * 3600000 + MinFromTime L * 60000) = L - L mod 60000"
    using clock_split[of L] by simp
  have md: "MakeDate (num (Day L)) (num (HourFromTime L * 3600000 + MinFromTime L * 60000))
            = num (L - L mod 60000)"
  proof -
    have "MakeDate (num (Day L)) (num (HourFromTime L * 3600000 + MinFromTime L * 60000))
          = num (Day L * 86400000 + (HourFromTime L * 3600000 + MinFromTime L * 60000))"
    proof (rule MakeDate_num)
      show "\<bar>Day L * 86400000\<bar> \<le> 9007199254740992"
        using Lb m1 unfolding dd by linarith
      show "\<bar>Day L * 86400000 + (HourFromTime L * 3600000 + MinFromTime L * 60000)\<bar> \<le> 9007199254740992"
        unfolding cs using Lb m1 by linarith
    qed
    then show ?thesis unfolding cs .
  qed
  have lm: "L mod 60000 = t mod 60000"
    by (simp add: L_def LocalTime_def)
  have res: "L - L mod 60000 - z * 60000 = t - t mod 60000"
    unfolding lm by (simp add: L_def LocalTime_def)
  have fb: "- 8640000000000000 \<le> t - t mod 60000" "t - t mod 60000 \<le> t"
    using floor_bounds[OF t, of 60000] by simp_all
  have "TimeClip (UTC z (num (L - L mod 60000))) = Date (L - L mod 60000 - z * 60000)"
  proof (rule TimeClip_UTC)
    show "\<bar>L - L mod 60000\<bar> \<le> 9007199254740992"
      using Lb m1 by linarith
    show "\<bar>L - L mod 60000 - z * 60000\<bar> \<le> 8640000000000000"
      unfolding res using fb t by linarith
  qed
  then show ?thesis
    unfolding setSeconds.simps Fin0_num L_def[symmetric] mt md res .
qed

lemma MakeTime_zero: "MakeTime (Fin 0) (Fin 0) (Fin 0) (Fin 0) = num 0"
  using MakeTime_num[of 0 0] by (simp add: Fin0_num)

lemma setHours_zero:
  assumes "in_range z t" "0 \<le> Day (LocalTime z t)"
  shows "setHours z (Date t) (Fin 0) (Fin 0) (Fin 0) (Fin 0) = Date (Day (LocalTime z t) * 86400000 - z * 60000)"
proof -
  define L where "L = LocalTime z t"
  have t: "\<bar>t\<bar> \<le> 8640000000000000" and z: "\<bar>z\<bar> \<le> 1440"
    using assms by (simp_all add: in_range_def)
  have Lb: "\<bar>L\<bar> \<le> 8640000086400000"
    using t z by (simp add: L_def LocalTime_def)
  have D0: "0 \<le> Day L" using assms(2) by (simp add: L_def)
  have dd: "Day L * 86400000 = L - L mod 86400000"
    by (simp add: Day_def minus_mod_eq_div_mult)
  have m1: "0 \<le> L mod 86400000" "L mod 86400000 < 86400000"
    by simp_all
  have md: "MakeDate (num (Day L)) (num 0) = num (Day L * 86400000)"
    using MakeDate_num[of "Day L" 0] Lb m1 unfolding dd by simp
  have "TimeClip (UTC z (num (Day L * 86400000))) = Date (Day L * 86400000 - z * 60000)"
  proof (rule TimeClip_UTC)
    show "\<bar>Day L * 86400000\<bar> \<le> 9007199254740992"
      using Lb m1 unfolding dd by linarith
    have "Day L * 86400000 - z * 60000 \<le> t"
      unfolding dd using m1 by (simp add: L_def LocalTime_def)
    moreover have "- 86400000 \<le> Day L * 86400000 - z * 60000"
      using D0 z by simp
    ultimately show "\<bar>Day L * 86400000 - z * 60000\<bar> \<le> 8640000000000000"
      using t by linarith
  qed
  then show ?thesis
    unfolding setHours.simps MakeTime_zero L_def[symmetric] md .
qed

lemma setMinutes_zero:
  assumes "in_range z t" "- 8640000000000000 \<le> t - LocalTime z t mod 3600000"
  shows "setMinutes z (Date t) (Fin 0) (Fin 0) (Fin 0) = Date (t - LocalTime z t mod 3600000)"
proof -
  define L where "L = LocalTime z t"
  have t: "\<bar>t\<bar> \<le> 8640000000000000" and z: "\<bar>z\<bar> \<le> 1440"
    using assms by (simp_all add: in_range_def)
  have Lb: "\<bar>L\<bar> \<le> 8640000086400000"
    using t z by (simp add: L_def LocalTime_def)
  have h: "0 \<le> HourFromTime L" "HourFromTime L < 24"
    by (simp_all add: HourFromTime_def)
  have mt: "MakeTime (num (HourFromTime L)) (num 0) (num 0) (num 0) = num (HourFromTime L * 3600000)"
    using MakeTime_num[of "HourFromTime L" 0] h by simp
  have dd: "Day L * 86400000 = L - L mod 86400000"
    by (simp add: Day_def minus_mod_eq_div_mult)
  have m1: "0 \<le> L mod 86400000" "L mod 86400000 < 86400000" "0 \<le> L mod 3600000" "L mod 3600000 < 3600000"
    by simp_all
  have hs: "Day L * 86400000 + HourFromTime L * 3600000 = L - L mod 3600000"
    by (rule hour_split)
  have md: "MakeDate (num (Day L)) (num (HourFromTime L * 3600000)) = num (L - L mod 3600000)"
  proof -
    have "MakeDate (num (Day L)) (num (HourFromTime L * 3600000))
          = num (Day L * 86400000 + HourFromTime L * 3600000)"
    proof (rule MakeDate_num)
      show "\<bar>Day L * 86400000\<bar> \<le> 9007199254740992"
        using Lb m1 unfolding dd by linarith
      show "\<bar>Day L * 86400000 + HourFromTime L * 3600000\<bar> \<le> 9007199254740992"
        unfolding hs using Lb m1 by linarith
    qed
    then show ?thesis unfolding hs .
  qed
  have res: "L - L mod 3600000 - z * 60000 = t - L mod 3600000"
    by (simp add: L_def LocalTime_def)
  have "TimeClip (UTC z (num (L - L mod 3600000))) = Date (L - L mod 3600000 - z * 60000)"
  proof (rule TimeClip_UTC)
    show "\<bar>L - L mod 3600000\<bar> \<le> 9007199254740992"
      using Lb m1 by linarith
    show "\<bar>L - L mod 3600000 - z * 60000\<bar> \<le> 8640000000000000"
      unfolding res using assms(2) t m1 unfolding L_def by linarith
  qed
  then show ?thesis
    unfolding setMinutes.simps Fin0_num L_def[symmetric] mt md res .
qed

lemma year_nonneg_day: "1970 < YearFromDay d \<Longrightarrow> 0 \<le> d"
proof (rule ccontr)
  assume y: "1970 < YearFromDay d" and "\<not> 0 \<le> d"
  then have "d < 0" by simp
  then have "(400 * d) div 146097 < 0" by simp
  then have "1970 + (400 * d) div 146097 + 1 \<le> 1970" by simp
  then have "YearFromDay d \<le> 1970"
    by (simp add: YearFromDay_def Let_def)
  with y show False by simp
qed

subsection \<open>The resolver\<close>

lemma flt_num [simp]: "flt (Fin 1990) (num y) \<longleftrightarrow> 1990 < y"
proof -
  have "(1990 :: rat) < of_int y \<longleftrightarrow> (of_int 1990 :: rat) < of_int y" by simp
  also have "\<dots> \<longleftrightarrow> 1990 < y" by (simp only: of_int_less_iff)
  finally show ?thesis by (simp add: num_def)
qed

lemma isNaN_getTime [simp]: "isNaN (getTime d) \<longleftrightarrow> d = InvalidDate"
  by (cases d) (simp_all add: num_def)

lemma parseDateTime_gate:
  "parseDateTime env dv tv =
     (case resolveDate env dv tv of
        Some (Date t) \<Rightarrow> if 1990 < YearFromTime (LocalTime (tz env) t)
                         then Some (setSeconds (tz env) (Date t) (Fin 0) (Fin 0)) else None
      | _ \<Rightarrow> None)"
  by (simp add: parseDateTime_def split: option.splits jsdate.splits)

lemma serial_resolves:
  assumes "\<not> time_present env tv"
    and "TimeClip (fmul (fmul (fsub s (Fin 25569)) (Fin 86400)) (Fin 1000)) = Date t"
    and "1990 < YearFromTime (LocalTime (tz env) t)"
    and "\<bar>tz env\<bar> \<le> 1440"
  shows "parseDateTime env (Num s) tv = Some (Date (t - t mod 60000))"
proof -
  have r: "resolveDate env (Num s) tv = Some (Date t)"
    using assms(1,2) by (simp add: resolveDate_def serialDate_def newDate_def)
  have "\<bar>t\<bar> \<le> 8640000000000000"
  proof (cases "fmul (fmul (fsub s (Fin 25569)) (Fin 86400)) (Fin 1000)")
    case (Fin x)
    with assms(2) have x: "\<not> 8640000000000000 < \<bar>x\<bar>" "t = trunc_rat x"
      by (simp_all split: if_splits)
    then have "\<bar>rat_of_int (trunc_rat x)\<bar> \<le> \<bar>x\<bar>"
      by (simp add: trunc_rat_def)
    with x have "rat_of_int \<bar>t\<bar> \<le> rat_of_int 8640000000000000" by simp
    then show ?thesis by (simp only: of_int_le_iff)
  qed (use assms(2) in simp_all)
  then have "in_range (tz env) t"
    using assms(4) by (simp add: in_range_def)
  then show ?thesis
    using assms(3) by (simp add: parseDateTime_gate r setSeconds_zero del: setSeconds.simps)
qed

lemma fmod_one_idem: "fmod (fmod t (Fin 1)) (Fin 1) = fmod t (Fin 1)"
proof (cases t)
  case (Fin a)
  define f where "f = a - rat_of_int (trunc_rat a)"
  have "trunc_rat f = 0"
    unfolding f_def trunc_rat_def by (auto simp: floor_eq_iff ceiling_eq_iff) linarith+
  then show ?thesis
    by (simp add: Fin f_def)
qed simp_all

lemma floor_idem: "Math_floor (Math_floor d) = Math_floor d"
  by (cases d) simp_all

subsection \<open>The example sheet\<close>

lemmas year_eval = YearFromTime_def YearFromDay_def DayFromYear_def Day_def LocalTime_def Let_def

lemma serialDate_45000: "serialDate (Fin 45000) = Date 1678838400000"
  by (simp add: serialDate_def newDate_def fsub_def rnd_Ints trunc_rat_def)

lemma serialDate_45001: "serialDate (Fin 45001) = Date 1678924800000"
  by (simp add: serialDate_def newDate_def fsub_def rnd_Ints trunc_rat_def)

lemma row1_absent:
  "parseDateTime utc_host (cellAt (demo_grid ! 1) (dateCol demo_mapping)) (timeCell demo_mapping demo_grid 1) = None"
  by (simp add: demo_grid_def demo_mapping_def cellAt_def timeCell_def parseDateTime_def
      resolveDate_def utc_host_def date_time_sep_def is_ws_def)

lemma row2_present:
  "parseDateTime utc_host (cellAt (demo_grid ! 2) (dateCol demo_mapping)) (timeCell demo_mapping demo_grid 2)
     = Some (Date 1678924800000)"
proof -
  have tc: "TimeClip (fmul (fmul (fsub (Fin 45001) (Fin 25569)) (Fin 86400)) (Fin 1000)) = Date 1678924800000"
    using serialDate_45001 by (simp add: serialDate_def newDate_def)
  have y: "1990 < YearFromTime (LocalTime (tz utc_host) 1678924800000)"
    by (simp add: utc_host_def year_eval)
  have "parseDateTime utc_host (Num (Fin 45001)) Undefined
        = Some (Date (1678924800000 - 1678924800000 mod 60000))"
    by (rule serial_resolves[OF _ tc y]) (simp_all add: utc_host_def)
  then show ?thesis
    by (simp add: demo_grid_def demo_mapping_def cellAt_def timeCell_def)
qed

subsection \<open>A time cell without hours and minutes\<close>

lemma resolve_time_text:
  assumes "trim s \<noteq> []" "datePart env dv = Date t0"
  shows "resolveDate env dv (Str s) =
     Some (setHours (tz env) (Date t0) (fst (timePart env (Str s))) (snd (timePart env (Str s))) (Fin 0) (Fin 0))"
  using assms by (cases dv) (simp_all add: resolveDate_def Let_def)

lemma midnight_resolves:
  assumes "trim s \<noteq> []"
    and "length (split_on (\<lambda>c. c = CHR '':'') (trim s)) < 2"
    and "datePart env dv = Date t0" and "in_range (tz env) t0"
    and "1990 < YearFromTime (LocalTime (tz env) t0)"
  shows "parseDateTime env dv (Str s)
         = Some (Date (Day (LocalTime (tz env) t0) * 86400000 - tz env * 60000))"
proof -
  define z where "z = tz env"
  define D where "D = Day (LocalTime z t0)"
  define r where "r = D * 86400000 - z * 60000"
  have t: "\<bar>t0\<bar> \<le> 8640000000000000" and zb: "\<bar>z\<bar> \<le> 1440"
    using assms(4) by (simp_all add: in_range_def z_def)
  have D0: "0 \<le> D"
    using assms(5) year_nonneg_day[of D] by (simp add: YearFromTime_def D_def z_def)
  have tp: "timePart env (Str s) = (Fin 0, Fin 0)"
    using assms(2) by (simp add: timePart_def Let_def)
  have sh: "setHours z (Date t0) (Fin 0) (Fin 0) (Fin 0) (Fin 0) = Date r"
    using setHours_zero[of z t0] assms(4) D0 by (simp add: D_def r_def z_def)
  have res: "resolveDate env dv (Str s) = Some (Date r)"
    using resolve_time_text[OF assms(1,3)] sh by (simp add: tp z_def)
  have L: "LocalTime z r = D * 86400000"
    by (simp add: LocalTime_def r_def)
  have y: "YearFromTime (LocalTime z r) = YearFromTime (LocalTime z t0)"
    by (simp add: L YearFromTime_def Day_def D_def)
  have dd: "D * 86400000 = LocalTime z t0 - LocalTime z t0 mod 86400000"
    by (simp add: D_def Day_def minus_mod_eq_div_mult)
  have "r \<le> t0"
    unfolding r_def dd by (simp add: LocalTime_def)
  moreover have "- 86400000 \<le> r"
    using D0 zb by (simp add: r_def)
  ultimately have rr: "in_range z r"
    using t zb by (simp add: in_range_def)
  have "r mod 60000 = (D * 1440 - z) * 60000 mod 60000"
    by (simp add: r_def algebra_simps)
  then have m: "r mod 60000 = 0"
    by simp
  have "setSeconds z (Date r) (Fin 0) (Fin 0) = Date r"
    using setSeconds_zero[OF rr] m by simp
  then show ?thesis
    using assms(5) y unfolding parseDateTime_gate res
    by (simp add: z_def[symmetric] r_def D_def del: setSeconds.simps)
qed

subsection \<open>Valid timestamps and the loops of the merger\<close>











subsection \<open>The buckets of the exporter\<close>

lemma firsts_snoc: "firsts (xs @ [x]) = (if x \<in> set xs then firsts xs else firsts xs @ [x])"
  by (simp add: firsts_def)

lemma set_firsts [simp]: "set (firsts xs) = set xs"
  by (simp add: firsts_def)

lemma distinct_firsts [simp]: "distinct (firsts xs)"
  by (simp add: firsts_def)

lemma firsts_Nil [simp]: "firsts [] = []"
  by (simp add: firsts_def)

lemma sumOver_snoc: "sumOver q (xs @ [x]) = fadd (sumOver q xs) (q x)"
  by (simp add: sumOver_def)

lemma add_bucket_sums:
  "map (\<lambda>kg. (fst kg, bucketSums (snd kg))) (add_bucket key ts d g)
     = add_sums key (avgs d) (map (\<lambda>kg. (fst kg, bucketSums (snd kg))) g)"
  by (induction g) (auto simp: bucketSums_def avgs_def addTo_def)

lemma add_sums_present:
  assumes "distinct ks" "key \<in> set ks"
  shows "add_sums key v (map (\<lambda>k. (k, f k)) ks)
     = map (\<lambda>k. (k, if k = key
                     then (fadd (fst (f k)) (fst v), fadd (fst (snd (f k))) (fst (snd v)),
                           fadd (snd (snd (f k))) (snd (snd v)))
                     else f k)) ks"
  using assms by (induction ks) auto

lemma add_sums_absent:
  assumes "key \<notin> set ks"
  shows "add_sums key v (map (\<lambda>k. (k, f k)) ks)
     = map (\<lambda>k. (k, f k)) ks
       @ [(key, fadd (Fin 0) (fst v), fadd (Fin 0) (fst (snd v)), fadd (Fin 0) (snd (snd v)))]"
  using assms by (induction ks) auto

text \<open>The buckets after any prefix of the data: one per key, in order of first appearance.\<close>

lemma buckets_are_sums:
  "map (\<lambda>kg. (fst kg, bucketSums (snd kg)))
       (foldl (\<lambda>grouped d. add_bucket (key d) (start d) d grouped) [] data)
   = map (\<lambda>k. (k, sumOver activeAvg (filter (\<lambda>d. key d = k) data),
                   sumOver inductiveAvg (filter (\<lambda>d. key d = k) data),
                   sumOver capacitiveAvg (filter (\<lambda>d. key d = k) data)))
         (firsts (map key data))"
proof (induction data rule: rev_induct)
  case Nil
  show ?case by simp
next
  case (snoc x xs)
  let ?f = "\<lambda>ys k. (sumOver activeAvg (filter (\<lambda>d. key d = k) ys),
                      sumOver inductiveAvg (filter (\<lambda>d. key d = k) ys),
                      sumOver capacitiveAvg (filter (\<lambda>d. key d = k) ys))"
  have step: "map (\<lambda>kg. (fst kg, bucketSums (snd kg)))
       (foldl (\<lambda>grouped d. add_bucket (key d) (start d) d grouped) [] (xs @ [x]))
     = add_sums (key x) (avgs x) (map (\<lambda>k. (k, ?f xs k)) (firsts (map key xs)))"
    using snoc.IH by (simp add: add_bucket_sums)
  show ?case
  proof (cases "key x \<in> set (map key xs)")
    case True
    then have "add_sums (key x) (avgs x) (map (\<lambda>k. (k, ?f xs k)) (firsts (map key xs)))
        = map (\<lambda>k. (k, ?f (xs @ [x]) k)) (firsts (map key xs))"
      by (subst add_sums_present) (auto simp: avgs_def sumOver_snoc)
    with True show ?thesis
      unfolding step by (simp add: firsts_snoc)
  next
    case False
    have e: "filter (\<lambda>d. key d = key x) xs = []"
    proof -
      have "key d \<noteq> key x" if "d \<in> set xs" for d
        using that False by (metis image_eqI set_map)
      then show ?thesis by (simp add: filter_empty_conv)
    qed
    have "add_sums (key x) (avgs x) (map (\<lambda>k. (k, ?f xs k)) (firsts (map key xs)))
        = map (\<lambda>k. (k, ?f xs k)) (firsts (map key xs))
          @ [(key x, fadd (Fin 0) (activeAvg x), fadd (Fin 0) (inductiveAvg x), fadd (Fin 0) (capacitiveAvg x))]"
      using False by (subst add_sums_absent) (auto simp: avgs_def)
    moreover have "map (\<lambda>k. (k, ?f (xs @ [x]) k)) (firsts (map key xs))
        = map (\<lambda>k. (k, ?f xs k)) (firsts (map key xs))"
      using False by (intro map_cong) auto
    ultimately show ?thesis
      unfolding step using False by (simp add: firsts_snoc e sumOver_def)
  qed
qed

subsection \<open>The groups of the aggregator\<close>

lemma push_group_new:
  "key \<notin> fst ` set g \<Longrightarrow> push_group key r g = g @ [(key, [r])]"
  by (induction g) auto

lemma groupRows_singletons:
  assumes "distinct (map timestamp rows)"
    and "\<forall>r \<in> set rows. timestamp r \<noteq> InvalidDate \<and> hourStart env r = timestamp r"
    and "\<forall>r \<in> set rows. time_key (timestamp r) \<notin> fst ` set g"
  shows "groupRows env rows g = Inr (g @ map (\<lambda>r. (time_key (timestamp r), [r])) rows)"
  using assms
proof (induction rows arbitrary: g)
  case Nil
  show ?case by simp
next
  case (Cons r rows)
  from Cons.prems(2) obtain k where k: "timestamp r = Date k" "hourStart env r = Date k"
    by (cases "timestamp r") auto
  have new: "k \<notin> fst ` set g"
    using Cons.prems(3) k by simp
  have other: "time_key (timestamp r') \<noteq> k" if "r' \<in> set rows" for r'
  proof -
    from Cons.prems(1) have "timestamp r \<notin> timestamp ` set rows" by simp
    with that have "timestamp r' \<noteq> timestamp r" by (metis imageI)
    moreover from Cons.prems(2) that have "timestamp r' \<noteq> InvalidDate" by simp
    ultimately show ?thesis using k by (cases "timestamp r'") auto
  qed
  have "groupRows env rows (g @ [(k, [r])])
        = Inr ((g @ [(k, [r])]) @ map (\<lambda>r. (time_key (timestamp r), [r])) rows)"
  proof (rule Cons.IH)
    show "distinct (map timestamp rows)" using Cons.prems(1) by simp
    show "\<forall>x\<in>set rows. timestamp x \<noteq> InvalidDate \<and> hourStart env x = timestamp x"
      using Cons.prems(2) by simp
    show "\<forall>x\<in>set rows. time_key (timestamp x) \<notin> fst ` set (g @ [(k, [r])])"
      using Cons.prems(3) other by auto
  qed
  then show ?case
    using k new by (simp add: push_group_new)
qed

lemma Math_max_single [simp]: "Math_max [v] = v"
  by (cases v) (simp_all add: Math_max_def fmax2_def)

lemma Math_min_single [simp]: "Math_min [v] = v"
  by (cases v) (simp_all add: Math_min_def fmin2_def)

lemma rnd_one: "rnd 1 = Fin 1"
  using rnd_Ints[of 1] by simp

lemma average_single: "is_double v \<Longrightarrow> average [v] (Suc 0) = v"
  by (cases v) (simp_all add: average_def num_def)

lemma hourlyRecord_single:
  assumes "timestamp r = Date k" "is_double (activePower r)" "is_double (inductivePower r)"
    "is_double (capacitivePower r)"
  shows "hourlyRecord env (k, [r]) = asRecord env r"
  using assms by (simp add: hourlyRecord_def asRecord_def average_single Let_def)

lemma aggregate_hourly_input:
  assumes "hourly_input env rows"
  shows "aggregateToHourly env rows
         = Inr (sort_key (\<lambda>h. time_key (timestampH h)) (map (asRecord env) rows))"
proof -
  have g: "groupRows env rows [] = Inr (map (\<lambda>r. (time_key (timestamp r), [r])) rows)"
    using groupRows_singletons[of rows env "[]"] assms by (simp add: hourly_input_def)
  have "hourlyRecord env (time_key (timestamp r), [r]) = asRecord env r" if "r \<in> set rows" for r
  proof -
    from that assms obtain k where "timestamp r = Date k"
      by (cases "timestamp r") (auto simp: hourly_input_def)
    moreover from that assms have "is_double (activePower r)" "is_double (inductivePower r)"
      "is_double (capacitivePower r)"
      by (simp_all add: hourly_input_def)
    ultimately show ?thesis by (simp add: hourlyRecord_single)
  qed
  then have "map (hourlyRecord env) (map (\<lambda>r. (time_key (timestamp r), [r])) rows)
             = map (asRecord env) rows"
    by simp
  then show ?thesis
    by (simp only: aggregateToHourly_def g sum.case)
qed

lemma insort_key_map:
  "insort_key f (g x) (map g ys) = map g (insort_key (\<lambda>y. f (g y)) x ys)"
  by (induction ys) simp_all

lemma sort_key_map:
  "sort_key f (map g xs) = map g (sort_key (\<lambda>y. f (g y)) xs)"
  by (induction xs) (simp_all add: insort_key_map)

lemma asRecord_asReading: "asRecord env (asReading (asRecord env r)) = asRecord env r"
  by (simp add: asRecord_def asReading_def)

lemma asReading_asRecord: "asReading (asRecord env r) = r"
  by (simp add: asRecord_def asReading_def)

lemma push_group_present:
  assumes "distinct ks" "key \<in> set ks"
  shows "push_group key r (map (\<lambda>k. (k, f k)) ks)
         = map (\<lambda>k. (k, if k = key then f k @ [r] else f k)) ks"
  using assms by (induction ks) auto

lemma push_group_absent:
  assumes "key \<notin> set ks"
  shows "push_group key r (map (\<lambda>k. (k, f k)) ks) = map (\<lambda>k. (k, f k)) ks @ [(key, [r])]"
  using assms by (induction ks) auto

lemma groups_are_filters:
  "foldl (\<lambda>g r. push_group (K r) r g) [] rows
     = map (\<lambda>k. (k, filter (\<lambda>r. K r = k) rows)) (firsts (map K rows))"
proof (induction rows rule: rev_induct)
  case Nil
  show ?case by simp
next
  case (snoc x xs)
  show ?case
  proof (cases "K x \<in> set (map K xs)")
    case True
    then have "push_group (K x) x (map (\<lambda>k. (k, filter (\<lambda>r. K r = k) xs)) (firsts (map K xs)))
        = map (\<lambda>k. (k, filter (\<lambda>r. K r = k) (xs @ [x]))) (firsts (map K xs))"
      by (subst push_group_present) auto
    with True show ?thesis
      by (simp add: snoc.IH firsts_snoc)
  next
    case False
    have e: "filter (\<lambda>r. K r = K x) xs = []"
    proof -
      have "K r \<noteq> K x" if "r \<in> set xs" for r
        using that False by (metis image_eqI set_map)
      then show ?thesis by (simp add: filter_empty_conv)
    qed
    have "push_group (K x) x (map (\<lambda>k. (k, filter (\<lambda>r. K r = k) xs)) (firsts (map K xs)))
        = map (\<lambda>k. (k, filter (\<lambda>r. K r = k) xs)) (firsts (map K xs)) @ [(K x, [x])]"
      using False by (subst push_group_absent) auto
    moreover have "map (\<lambda>k. (k, filter (\<lambda>r. K r = k) (xs @ [x]))) (firsts (map K xs))
        = map (\<lambda>k. (k, filter (\<lambda>r. K r = k) xs)) (firsts (map K xs))"
      using False by (intro map_cong) auto
    ultimately show ?thesis
      using False by (simp add: snoc.IH firsts_snoc e)
  qed
qed

lemma groupRows_foldl:
  assumes "groupRows env rows g = Inr g'"
  shows "(\<forall>r \<in> set rows. hourStart env r \<noteq> InvalidDate)
         \<and> g' = foldl (\<lambda>g r. push_group (time_key (hourStart env r)) r g) g rows"
  using assms
proof (induction rows arbitrary: g)
  case Nil
  then show ?case by simp
next
  case (Cons r rows)
  then show ?case
    by (cases "hourStart env r") auto
qed

lemma aggregate_records:
  assumes "aggregateToHourly env rows = Inr recs" "h \<in> set recs"
  shows "bucket env rows h \<noteq> [] \<and> (\<exists>k. h = hourlyRecord env (k, bucket env rows h))"
proof -
  let ?K = "\<lambda>r. time_key (hourStart env r)"
  from assms(1) obtain g where g: "groupRows env rows [] = Inr g"
    and recs: "recs = sort_key (\<lambda>h. time_key (timestampH h)) (map (hourlyRecord env) g)"
    by (auto simp: aggregateToHourly_def split: sum.splits)
  from groupRows_foldl[OF g] have valid: "\<forall>r \<in> set rows. hourStart env r \<noteq> InvalidDate"
    and g': "g = map (\<lambda>k. (k, filter (\<lambda>r. ?K r = k) rows)) (firsts (map ?K rows))"
    by (simp_all add: groups_are_filters)
  from assms(2) recs g' obtain k where k: "k \<in> set (map ?K rows)"
    and h: "h = hourlyRecord env (k, filter (\<lambda>r. ?K r = k) rows)"
    by auto
  have "(?K r = k) = (hourStart env r = Date k)" if "r \<in> set rows" for r
    using valid that by (cases "hourStart env r") auto
  then have f: "filter (\<lambda>r. ?K r = k) rows = filter (\<lambda>r. hourStart env r = Date k) rows"
    by (intro filter_cong) auto
  have ts: "timestampH h = Date k"
    by (simp add: h hourlyRecord_def Let_def)
  have b: "bucket env rows h = filter (\<lambda>r. ?K r = k) rows"
    by (simp add: bucket_def ts f)
  from k have "filter (\<lambda>r. ?K r = k) rows \<noteq> []"
    by (auto simp: filter_empty_conv)
  with h b show ?thesis by auto
qed

lemma fmax2_Fin: "fmax2 (Fin a) (Fin b) = Fin (max a b)"
  by (simp add: fmax2_def max_def)

lemma fmin2_Fin: "fmin2 (Fin a) (Fin b) = Fin (min a b)"
  by (simp add: fmin2_def min_def)

lemma foldl_fmax2_Fin: "foldl fmax2 (Fin a) (map Fin rs) = Fin (fold max rs a)"
  by (induction rs arbitrary: a) (simp_all add: fmax2_Fin max.commute)

lemma foldl_fmin2_Fin: "foldl fmin2 (Fin a) (map Fin rs) = Fin (fold min rs a)"
  by (induction rs arbitrary: a) (simp_all add: fmin2_Fin min.commute)

lemma finite_list: "\<forall>v \<in> set vs. isFinite v \<Longrightarrow> vs = map Fin (map val vs)"
proof (induction vs)
  case Nil
  show ?case by simp
next
  case (Cons v vs)
  then show ?case by (cases v) simp_all
qed

lemma Math_max_Fin: "Math_max (map Fin (r # rs)) = Fin (Max (set (r # rs)))"
proof -
  have "Math_max (map Fin (r # rs)) = Fin (fold max rs r)"
    by (simp add: Math_max_def fmax2_def foldl_fmax2_Fin)
  then show ?thesis
    by (simp only: Max.set_eq_fold)
qed

lemma Math_min_Fin: "Math_min (map Fin (r # rs)) = Fin (Min (set (r # rs)))"
proof -
  have "Math_min (map Fin (r # rs)) = Fin (fold min rs r)"
    by (simp add: Math_min_def fmin2_def foldl_fmin2_Fin)
  then show ?thesis
    by (simp only: Min.set_eq_fold)
qed

lemma extrema_of_finite:
  assumes "vs \<noteq> []" "\<forall>v \<in> set vs. isFinite v"
  shows "extrema vs (Math_min vs) (Math_max vs)"
    and "Math_min vs = Fin (Min (val ` set vs))" and "Math_max vs = Fin (Max (val ` set vs))"
proof -
  define rs where "rs = map val vs"
  have vs: "vs = map Fin rs" unfolding rs_def using assms(2) by (rule finite_list)
  from assms(1) vs obtain r rs' where rs: "rs = r # rs'" by (cases rs) auto
  have mx: "Math_max vs = Fin (Max (set rs))" and mn: "Math_min vs = Fin (Min (set rs))"
    unfolding vs rs by (rule Math_max_Fin, rule Math_min_Fin)
  have ne: "set rs \<noteq> {}" by (simp add: rs)
  have "Max (set rs) \<in> set rs" "Min (set rs) \<in> set rs"
    using ne by (simp_all add: Max_in Min_in del: set_empty)
  moreover have "Min (set rs) \<le> x \<and> x \<le> Max (set rs)" if "x \<in> set rs" for x
    using that by simp
  ultimately show "extrema vs (Math_min vs) (Math_max vs)"
    unfolding extrema_def mx mn by (auto simp: vs)
  show "Math_min vs = Fin (Min (val ` set vs))" "Math_max vs = Fin (Max (val ` set vs))"
    by (simp_all add: mx mn rs_def)
qed

lemma sum_list_bounds:
  fixes xs :: "rat list"
  shows "(\<forall>x \<in> set xs. lo \<le> x \<and> x \<le> hi)
     \<Longrightarrow> of_nat (length xs) * lo \<le> sum_list xs \<and> sum_list xs \<le> of_nat (length xs) * hi"
  by (induction xs) (auto simp: algebra_simps)

lemma exact_mean_bounds:
  assumes "vs \<noteq> []"
  shows "Min (val ` set vs) \<le> exact_mean vs" "exact_mean vs \<le> Max (val ` set vs)"
proof -
  have n: "(0::rat) < of_nat (length vs)" using assms by simp
  have "\<forall>x \<in> set (map val vs). Min (val ` set vs) \<le> x \<and> x \<le> Max (val ` set vs)"
    by simp
  from sum_list_bounds[OF this]
  have "of_nat (length vs) * Min (val ` set vs) \<le> sum_list (map val vs)"
    "sum_list (map val vs) \<le> of_nat (length vs) * Max (val ` set vs)"
    by simp_all
  then show "Min (val ` set vs) \<le> exact_mean vs" "exact_mean vs \<le> Max (val ` set vs)"
    using n by (simp_all add: exact_mean_def pos_le_divide_eq pos_divide_le_eq mult.commute)
qed

text \<open>One quantity of one record: extrema, and the ordering of an unrounded mean.\<close>

lemma quantity_stats:
  assumes "vs \<noteq> []" "\<forall>v \<in> set vs. isFinite v"
  shows "extrema vs (Math_min vs) (Math_max vs) \<and> fle (Math_min vs) (Math_max vs)
    \<and> (a = Fin (exact_mean vs) \<longrightarrow> fle (Math_min vs) a \<and> fle a (Math_max vs))"
proof -
  note e = extrema_of_finite[OF assms]
  have "Min (val ` set vs) \<le> Max (val ` set vs)"
    using exact_mean_bounds[OF assms(1)] by linarith
  then show ?thesis
    using e(1) exact_mean_bounds[OF assms(1)] by (simp add: e(2,3))
qed

subsection \<open>The example readings\<close>

lemma hourStart_utc:
  assumes "0 \<le> t" "t \<le> 8640000000000000"
  shows "hourStart utc_host (reading t p) = Date (t - t mod 3600000)"
proof -
  have z: "tz utc_host = 0" by (simp add: utc_host_def)
  have L: "LocalTime 0 t = t" by (simp add: LocalTime_def)
  have m: "0 \<le> t mod 3600000" "t mod 3600000 \<le> t"
    using assms(1) by (simp_all add: zmod_le_nonneg_dividend)
  have "setMinutes 0 (Date t) (Fin 0) (Fin 0) (Fin 0) = Date (t - LocalTime 0 t mod 3600000)"
    using assms m by (intro setMinutes_zero) (simp_all add: in_range_def L)
  then show ?thesis
    by (simp add: hourStart_def reading_def z L del: setMinutes.simps)
qed

lemma rnd_zero [simp]: "rnd 0 = Fin 0"
  by (simp add: rnd_def)

lemma average_zeros:
  "average [Fin 0, Fin 0, Fin 0] (Suc (Suc (Suc 0))) = Fin 0"
  "average [Fin 0, Fin 0] (Suc (Suc 0)) = Fin 0"
  by (simp_all add: average_def num_def)

lemma tenth_sums:
  "rnd tenth = Fin tenth"
  "rnd (tenth + tenth) = Fin (3602879701896397 / 18014398509481984)"
  "rnd (3602879701896397 / 18014398509481984 + tenth) = Fin (1351079888211149 / 4503599627370496)"
  "rnd (1351079888211149 / 4503599627370496 / 3) = Fin (7205759403792795 / 72057594037927936)"
proof -
  show "rnd tenth = Fin tenth"
    unfolding tenth_def
    by (rule rnd_on_grid[where e = "- 4" and k = "7205759403792794"]) simp_all
  have "rnd (3602879701896397 / 18014398509481984) = Fin (3602879701896397 / 18014398509481984)"
    by (rule rnd_on_grid[where e = "- 3" and k = "7205759403792794"]) simp_all
  then show "rnd (tenth + tenth) = Fin (3602879701896397 / 18014398509481984)"
    by (simp add: tenth_def)
  show "rnd (3602879701896397 / 18014398509481984 + tenth) = Fin (1351079888211149 / 4503599627370496)"
    by code_simp
  show "rnd (1351079888211149 / 4503599627370496 / 3) = Fin (7205759403792795 / 72057594037927936)"
    by code_simp
qed

lemma average_tenths:
  "average [Fin tenth, Fin tenth, Fin tenth] (Suc (Suc (Suc 0))) = Fin (7205759403792795 / 72057594037927936)"
proof -
  have 1: "fadd (Fin 0) (Fin tenth) = Fin tenth"
    by (simp add: tenth_sums(1))
  have 2: "fadd (Fin tenth) (Fin tenth) = Fin (3602879701896397 / 18014398509481984)"
    by (simp only: fadd.simps tenth_sums(2))
  have 3: "fadd (Fin (3602879701896397 / 18014398509481984)) (Fin tenth) = Fin (1351079888211149 / 4503599627370496)"
    by (simp only: fadd.simps tenth_sums(3))
  have 4: "fdiv (Fin (1351079888211149 / 4503599627370496)) (Fin 3) = Fin (7205759403792795 / 72057594037927936)"
    using tenth_sums(4) by simp
  have n: "num (int (Suc (Suc (Suc 0)))) = Fin 3"
    by (simp add: num_def)
  show ?thesis
    unfolding average_def n by (simp only: list.map foldl.simps 1 2 3 4)
qed

lemma average_pair: "average [Fin 10, Fin 20] (Suc (Suc 0)) = Fin 15"
  by (simp add: average_def num_def rnd_Ints)

lemma aggregate_tenths: "aggregateToHourly utc_host demo_tenths = Inr [demo_tenths_hour]"
proof -
  have h: "hourStart utc_host (reading 1704096000000 tenth) = Date 1704096000000"
    "hourStart utc_host (reading 1704096900000 tenth) = Date 1704096000000"
    "hourStart utc_host (reading 1704097800000 tenth) = Date 1704096000000"
    by (simp_all add: hourStart_utc)
  have g: "groupRows utc_host demo_tenths [] = Inr [(1704096000000, demo_tenths)]"
    by (simp add: demo_tenths_def h)
  have l: "fmtHourLabel utc_host (Date 1704096000000) = []"
    by (simp add: utc_host_def)
  have r: "hourlyRecord utc_host (1704096000000, demo_tenths) = demo_tenths_hour"
    by (simp add: hourlyRecord_def demo_tenths_def reading_def demo_tenths_hour_def Let_def l
        average_tenths average_zeros Math_max_def Math_min_def fmax2_def fmin2_def)
  show ?thesis
    by (simp add: aggregateToHourly_def g r)
qed

lemma aggregate_pair: "aggregateToHourly utc_host demo_pair = Inr [demo_pair_hour]"
proof -
  have h: "hourStart utc_host (reading 1704096900000 10) = Date 1704096000000"
    "hourStart utc_host (reading 1704098700000 20) = Date 1704096000000"
    by (simp_all add: hourStart_utc)
  have g: "groupRows utc_host demo_pair [] = Inr [(1704096000000, demo_pair)]"
    by (simp add: demo_pair_def h)
  have l: "fmtHourLabel utc_host (Date 1704096000000) = []"
    by (simp add: utc_host_def)
  have r: "hourlyRecord utc_host (1704096000000, demo_pair) = demo_pair_hour"
    by (simp add: hourlyRecord_def demo_pair_def reading_def demo_pair_hour_def Let_def l
        average_pair average_zeros Math_max_def Math_min_def fmax2_def fmin2_def)
  show ?thesis
    by (simp add: aggregateToHourly_def g r)
qed

lemma day_labels:
  "dayLabel (Date 1704096000000) = ''day 19723''"
  "dayLabel (Date 1704099600000) = ''day 19723''"
  "dayLabel (Date 1704182400000) = ''day 19724''"
  by (simp_all add: dayLabel_def Day_def dec.simps)

lemma hourly_input_demo: "hourly_input utc_host demo_hours"
proof -
  have g: "rnd (25 / 2) = Fin (25 / 2)"
    by (rule rnd_on_grid[where e = 3 and k = "25 * 2 ^ 48"]) simp_all
  have h: "hourStart utc_host (reading 1704099600000 (25 / 2)) = Date 1704099600000"
    "hourStart utc_host (reading 1704096000000 3) = Date 1704096000000"
    by (simp_all add: hourStart_utc)
  show ?thesis
    unfolding hourly_input_def demo_hours_def using h g
    by (simp add: reading_def rnd_Ints)
qed

subsection \<open>The text of the export\<close>

lemma daily_rows_are_day_sums:
  "map (\<lambda>r. (date r, active r, inductiveP r, capacitive r)) (processedData env daily data)
     = resumByDay (processedData env hourly data)"
proof -
  let ?key = "\<lambda>d. fmtDate env (timestampH d)"
  let ?h = "\<lambda>d. \<lparr> timestampP = timestampH d, date = fmtDate env (timestampH d),
                   time = fmtTime env (timestampH d), dateTime = fmtDateTime env (timestampH d),
                   active = activeAvg d, inductiveP = inductiveAvg d, capacitive = capacitiveAvg d \<rparr>"
  have f: "filter (\<lambda>r. date r = k) (map ?h data) = map ?h (filter (\<lambda>d. ?key d = k) data)" for k
    by (simp add: filter_map comp_def)
  have rhs: "resumByDay (processedData env hourly data)
      = map (\<lambda>k. (k, sumOver activeAvg (filter (\<lambda>d. ?key d = k) data),
                      sumOver inductiveAvg (filter (\<lambda>d. ?key d = k) data),
                      sumOver capacitiveAvg (filter (\<lambda>d. ?key d = k) data)))
            (firsts (map ?key data))"
    unfolding resumByDay_def processedData_def total_def
    by (simp add: f comp_def sumOver_def)
  have lhs: "map (\<lambda>r. (date r, active r, inductiveP r, capacitive r)) (processedData env daily data)
      = map (\<lambda>kg. (fst kg, bucketSums (snd kg)))
          (foldl (\<lambda>grouped d. add_bucket (?key d) (bucketStart env daily d) d grouped) [] data)"
    by (simp add: processedData_def bucketKey_def bucketSums_def comp_def)
  show ?thesis
    unfolding lhs rhs by (rule buckets_are_sums)
qed

lemma daily_rows_format_day_sums:
  "csvRows env \<lparr> resolution = daily, splitDateTime = split, columns = cols \<rparr> data
     = map (dayRow env cols) (resumByDay (processedData env hourly data))"
proof -
  have c: "csvRow env \<lparr> resolution = daily, splitDateTime = split, columns = cols \<rparr> r
           = dayRow env cols (date r, active r, inductiveP r, capacitive r)"
    if "dateTime r = date r" for r
    using that by (simp add: csvRow_def dayRow_def)
  have d: "\<forall>r \<in> set (processedData env daily data). dateTime r = date r"
    by (auto simp add: processedData_def)
  have "csvRows env \<lparr> resolution = daily, splitDateTime = split, columns = cols \<rparr> data
        = map (dayRow env cols)
            (map (\<lambda>r. (date r, active r, inductiveP r, capacitive r)) (processedData env daily data))"
    unfolding csvRows_def using c d by simp
  then show ?thesis
    by (simp only: daily_rows_are_day_sums)
qed

lemma small_labels:
  "dayLabel (Date 1704103200000) = ''day 19723''"
  "clockLabel (Date 1704096000000) = ''8:00''"
  "clockLabel (Date 1704099600000) = ''9:00''"
  "clockLabel (Date 1704103200000) = ''10:00''"
  by (simp_all add: dayLabel_def clockLabel_def Day_def HourFromTime_def dec.simps)

lemma small_texts:
  "formatValue env (Fin (1 / 256)) = ''0,00''"
  "formatValue env (Fin (3 / 256)) = ''0,01''"
  "formatValue env (Fin 0) = ''0,00''"
  "formatValue env (Fin 30) = ''30,00''"
  "formatValue env (Fin 5) = ''5,00''"
  by code_simp+

lemma small_grid:
  "rnd (1 / 256) = Fin (1 / 256)"
  "rnd (1 / 128) = Fin (1 / 128)"
  "rnd (3 / 256) = Fin (3 / 256)"
proof -
  show "rnd (1 / 256) = Fin (1 / 256)"
    by (rule rnd_on_grid[where e = "- 8" and k = "2 ^ 52"]) simp_all
  show "rnd (1 / 128) = Fin (1 / 128)"
    by (rule rnd_on_grid[where e = "- 7" and k = "2 ^ 52"]) simp_all
  show "rnd (3 / 256) = Fin (3 / 256)"
    by (rule rnd_on_grid[where e = "- 7" and k = "3 * 2 ^ 51"]) simp_all
qed

lemma reads_zero: "parseValue (Str ''0,00'') = Fin 0"
  by code_simp

section \<open>The value normalizer\<close>



section \<open>The timestamp resolver\<close>




text \<open>
  C7. The resolver returns a date exactly when the date it resolved is valid and its local
  year exceeds 1990. A row whose timestamp is absent pushes no reading, and the extraction
  of the other rows is the same as if the row were not there.
\<close>

theorem validity_gate:
  "(parseDateTime env dv tv \<noteq> None \<longleftrightarrow>
      (\<exists>t. resolveDate env dv tv = Some (Date t) \<and> 1990 < YearFromTime (LocalTime (tz env) t)))
   \<and> (parseDateTime env (cellAt (g ! i) (dateCol m)) (timeCell m g i) = None \<longrightarrow>
        rowReadings env m g i = []
        \<and> extractRows env m g (pre @ i # post) acc = extractRows env m g (pre @ post) acc)"
proof -
  have ex: "extractRows env m g (xs @ ys) a = extractRows env m g ys (extractRows env m g xs a)" for xs ys a
    by (induction xs arbitrary: a) simp_all
  have 1: "parseDateTime env dv tv \<noteq> None \<longleftrightarrow>
      (\<exists>t. resolveDate env dv tv = Some (Date t) \<and> 1990 < YearFromTime (LocalTime (tz env) t))"
    by (auto simp: parseDateTime_gate split: option.splits jsdate.splits)
  have 2: "rowReadings env m g i = []"
    if "parseDateTime env (cellAt (g ! i) (dateCol m)) (timeCell m g i) = None"
    using that by (simp add: rowReadings_def Let_def)
  have 3: "extractRows env m g (pre @ i # post) acc = extractRows env m g (pre @ post) acc"
    if "rowReadings env m g i = []"
    using that by (simp add: ex)
  from 1 2 3 show ?thesis by blast
qed

theorem validity_gate_witness:
  "parseDateTime utc_host (Num (Fin 45000)) Undefined \<noteq> None
   \<and> rowReadings utc_host demo_mapping demo_grid 1 = []
   \<and> extractRows utc_host demo_mapping demo_grid [0, 1, 2] []
       = extractRows utc_host demo_mapping demo_grid [0, 2] []"
proof -
  have r: "resolveDate utc_host (Num (Fin 45000)) Undefined = Some (Date 1678838400000)"
    by (simp add: resolveDate_def serialDate_45000)
  have y: "1990 < YearFromTime (LocalTime (tz utc_host) 1678838400000)"
    by (simp add: utc_host_def year_eval)
  note g = validity_gate[of utc_host "Num (Fin 45000)" Undefined demo_grid 1 demo_mapping "[0]" "[2]" "[]"]
  from g r y have "parseDateTime utc_host (Num (Fin 45000)) Undefined \<noteq> None"
    by blast
  moreover from g row1_absent have "rowReadings utc_host demo_mapping demo_grid 1 = []
     \<and> extractRows utc_host demo_mapping demo_grid ([0] @ 1 # [2]) []
       = extractRows utc_host demo_mapping demo_grid ([0] @ [2]) []"
    by blast
  ultimately show ?thesis by simp
qed

text \<open>
  C9. With a numeric date cell and a numeric time cell the resolver works on
  \<open>floor d + (t % 1)\<close>: the result is that of the single serial
  \<open>floor d + (t % 1)\<close>, and neither the fraction of the date nor the whole part of
  the time matters.
\<close>

theorem numeric_pair_combines:
  "parseDateTime env (Num d) (Num t)
     = parseDateTime env (Num (fadd (Math_floor d) (fmod t (Fin 1)))) Undefined
   \<and> parseDateTime env (Num d) (Num t)
     = parseDateTime env (Num (Math_floor d)) (Num (fmod t (Fin 1)))"
  by (simp add: parseDateTime_def resolveDate_def fmod_one_idem floor_idem)

theorem numeric_pair_combines_witness:
  "parseDateTime utc_host (Num (Fin (180001 / 4))) (Num (Fin (7 / 4)))
     = parseDateTime utc_host (Num (Fin (180003 / 4))) Undefined"
proof -
  have g: "rnd (180003 / 4) = Fin (180003 / 4)"
    by (rule rnd_on_grid[where e = 15 and k = "180003 * 2 ^ 35"]) simp_all
  have f: "\<lfloor>180001 / 4 :: rat\<rfloor> = 45000"
    by (rule floor_unique) simp_all
  have f': "\<lfloor>7 / 4 :: rat\<rfloor> = 1"
    by (rule floor_unique) simp_all
  have "fadd (Math_floor (Fin (180001 / 4))) (fmod (Fin (7 / 4)) (Fin 1)) = Fin (180003 / 4)"
    using g by (simp add: trunc_rat_def f f')
  with numeric_pair_combines[of utc_host "Fin (180001 / 4)" "Fin (7 / 4)"] show ?thesis
    by simp
qed

text \<open>
  C10. When the time cell is a non-blank string with fewer than two colon-separated parts,
  and the date part is a valid date whose local year exceeds 1990, the resolver returns a
  date: the local midnight (00:00:00.000) of the date part's day.
\<close>

theorem time_without_colon_gives_midnight:
  assumes "trim s \<noteq> []"
    and "length (split_on (\<lambda>c. c = CHR '':'') (trim s)) < 2"
    and "datePart env dv = Date t0" and "in_range (tz env) t0"
    and "1990 < YearFromTime (LocalTime (tz env) t0)"
  shows "\<exists>r. parseDateTime env dv (Str s) = Some (Date r)
           \<and> Day (LocalTime (tz env) r) = Day (LocalTime (tz env) t0)
           \<and> TimeWithinDay (LocalTime (tz env) r) = 0"
proof -
  have "parseDateTime env dv (Str s)
         = Some (Date (Day (LocalTime (tz env) t0) * 86400000 - tz env * 60000))"
    using assms by (rule midnight_resolves)
  moreover have "LocalTime (tz env) (Day (LocalTime (tz env) t0) * 86400000 - tz env * 60000)
         = Day (LocalTime (tz env) t0) * 86400000"
    by (simp add: LocalTime_def)
  ultimately show ?thesis
    by (simp add: Day_def TimeWithinDay_def)
qed

theorem time_without_colon_gives_midnight_witness:
  "\<exists>r. parseDateTime utc_host (Num (Fin (45000 + 37 / 64))) (Str ''noon'') = Some (Date r)
       \<and> Day (LocalTime (tz utc_host) r) = Day (LocalTime (tz utc_host) 1678888350000)
       \<and> TimeWithinDay (LocalTime (tz utc_host) r) = 0"
proof -
  have g: "rnd (1243621 / 64) = Fin (1243621 / 64)"
    by (rule rnd_on_grid[where e = 14 and k = "1243621 * 2 ^ 32"]) simp_all
  have 1: "fsub (Fin (45000 + 37 / 64)) (Fin 25569) = Fin (1243621 / 64)"
    using g by (simp add: fsub_def)
  have d: "datePart utc_host (Num (Fin (45000 + 37 / 64))) = Date 1678888350000"
    unfolding datePart_def serialDate_def newDate_def cell.case 1
    by (simp add: rnd_Ints trunc_rat_def)
  have s: "trim ''noon'' \<noteq> []" "length (split_on (\<lambda>c. c = CHR '':'') (trim ''noon'')) < 2"
    by (simp_all add: trim_def is_ws_def)
  have i: "in_range (tz utc_host) 1678888350000"
    by (simp add: in_range_def utc_host_def)
  have y: "1990 < YearFromTime (LocalTime (tz utc_host) 1678888350000)"
    by (simp add: utc_host_def year_eval)
  show ?thesis
    by (rule time_without_colon_gives_midnight[OF s d i y])
qed

section \<open>The grid extractor\<close>

text \<open>
  C8. When the timestamp of a non-empty row resolves, the row pushes exactly one reading,
  and each quantity whose target row (the current row plus the field's offset) lies outside
  the grid is 0 in it.
\<close>

theorem missing_row_gives_zero:
  assumes "i < length g" "g ! i \<noteq> []"
    and "parseDateTime env (cellAt (g ! i) (dateCol m)) (timeCell m g i) = Some d"
  shows "\<exists>r. rowReadings env m g i = [r] \<and> timestamp r = d
    \<and> (int i + activeOffset m < 0 \<or> int (length g) \<le> int i + activeOffset m \<longrightarrow> activePower r = Fin 0)
    \<and> (int i + inductiveOffset m < 0 \<or> int (length g) \<le> int i + inductiveOffset m \<longrightarrow> inductivePower r = Fin 0)
    \<and> (int i + capacitiveOffset m < 0 \<or> int (length g) \<le> int i + capacitiveOffset m \<longrightarrow> capacitivePower r = Fin 0)"
proof -
  have out: "fieldValue g j c = Fin 0" if "j < 0 \<or> int (length g) \<le> j" for j c
    using that by (auto simp: fieldValue_def rowAt_def)
  show ?thesis
    using assms(2,3) out by (simp add: rowReadings_def Let_def)
qed

theorem missing_row_gives_zero_witness:
  "\<exists>r. rowReadings utc_host demo_mapping demo_grid 2 = [r] \<and> timestamp r = Date 1678924800000
       \<and> capacitivePower r = Fin 0"
proof -
  have a: "2 < length demo_grid" "demo_grid ! 2 \<noteq> []"
    by (simp_all add: demo_grid_def)
  have o: "int (length demo_grid) \<le> int 2 + capacitiveOffset demo_mapping"
    by (simp add: demo_grid_def demo_mapping_def capacitiveOffset_def)
  from missing_row_gives_zero[OF a row2_present] o show ?thesis
    by blast
qed

section \<open>The multi-file merger\<close>



section \<open>The exporter\<close>

text \<open>
  C3. A daily export carries, per day and enabled quantity, the two-decimal text of the sum
  of that day's hourly averages: its rows are the day labels of the rows prepared for an
  hourly export, in order of first appearance, each followed by the text of the sums of
  that day's prepared hourly values, added from zero in export order and rounded for the
  export only after the summing.
\<close>

theorem daily_export_formats_day_sums:
  "csvRows env \<lparr> resolution = daily, splitDateTime = split, columns = cols \<rparr> data
     = map (dayRow env cols) (resumByDay (processedData env hourly data))"
  by (rule daily_rows_format_day_sums)

theorem daily_export_formats_day_sums_witness:
  "map (dayRow day_host \<lparr> activeC = True, inductiveC = False, capacitiveC = True \<rparr>)
       (resumByDay (processedData day_host hourly demo_days))
     = [[''day 19723'', ''30,00'', ''0,00''], [''day 19724'', ''5,00'', ''0,00'']]"
proof -
  have f: "fmtDate day_host = dayLabel"
    by (simp add: day_host_def)
  have "csvRows day_host \<lparr> resolution = daily, splitDateTime = True,
            columns = \<lparr> activeC = True, inductiveC = False, capacitiveC = True \<rparr> \<rparr> demo_days
      = [[''day 19723'', ''30,00'', ''0,00''], [''day 19724'', ''5,00'', ''0,00'']]"
    by (simp add: csvRows_def csvRow_def processedData_def demo_days_def bucketKey_def f asRecord_def
        reading_def day_labels addTo_def rnd_Ints small_texts del: setHours.simps)
  with daily_export_formats_day_sums[of day_host True
         "\<lparr> activeC = True, inductiveC = False, capacitiveC = True \<rparr>" demo_days]
  show ?thesis
    by simp
qed

text \<open>
  Re-summing the values that the hourly export carries does not give the daily export:
  three hours of 1/256 kW in one day are exported as 0,00 each and re-sum to 0,00, while
  the daily export of the same records carries 0,01.
\<close>

theorem resummed_export_counterexample:
  "csvRows export_host (active_only hourly) small_hours
     = [[''day 19723'', ''8:00'', ''0,00''], [''day 19723'', ''9:00'', ''0,00''], [''day 19723'', ''10:00'', ''0,00'']]
   \<and> resumExported export_host (csvRows export_host (active_only hourly) small_hours)
     = [[''day 19723'', ''0,00'']]
   \<and> csvRows export_host (active_only daily) small_hours = [[''day 19723'', ''0,01'']]"
proof -
  have f: "fmtDate export_host = dayLabel" "fmtTime export_host = clockLabel"
    by (simp_all add: export_host_def day_host_def)
  have h: "csvRows export_host (active_only hourly) small_hours
     = [[''day 19723'', ''8:00'', ''0,00''], [''day 19723'', ''9:00'', ''0,00''], [''day 19723'', ''10:00'', ''0,00'']]"
    by (simp add: csvRows_def csvRow_def active_only_def processedData_def small_hours_def f
        asRecord_def reading_def day_labels small_labels small_texts)
  have r: "resumExported export_host
             [[''day 19723'', ''8:00'', ''0,00''], [''day 19723'', ''9:00'', ''0,00''], [''day 19723'', ''10:00'', ''0,00'']]
           = [[''day 19723'', ''0,00'']]"
    by (simp add: resumExported_def firsts_def reads_zero small_texts upt_rec del: parseValue.simps)
  have d: "csvRows export_host (active_only daily) small_hours = [[''day 19723'', ''0,01'']]"
    by (simp add: csvRows_def csvRow_def active_only_def processedData_def small_hours_def f
        bucketKey_def asRecord_def reading_def day_labels small_labels addTo_def small_grid
        small_texts del: setHours.simps)
  from h r d show ?thesis by simp
qed

section \<open>The hourly aggregator\<close>

text \<open>
  C4. On an input of one reading per hour, each at the start of its hour, the aggregator
  returns one record per reading, in time order, whose average, minimum and maximum are the
  reading's value; aggregating the readings that carry those records' values returns the
  same records.
\<close>

theorem aggregate_idempotent_on_hours:
  assumes "hourly_input env rows"
  shows "aggregateToHourly env rows
           = Inr (sort_key (\<lambda>h. time_key (timestampH h)) (map (asRecord env) rows))
    \<and> aggregateToHourly env
         (map asReading (sort_key (\<lambda>h. time_key (timestampH h)) (map (asRecord env) rows)))
           = Inr (sort_key (\<lambda>h. time_key (timestampH h)) (map (asRecord env) rows))"
proof -
  let ?key = "\<lambda>h. time_key (timestampH h)"
  let ?recs = "sort_key ?key (map (asRecord env) rows)"
  let ?rows' = "map asReading ?recs"
  have key: "?key (asRecord env r) = time_key (timestamp r)" for r
    by (simp add: asRecord_def)
  have rows': "?rows' = sort_key (\<lambda>r. time_key (timestamp r)) rows"
  proof -
    have "?recs = map (asRecord env) (sort_key (\<lambda>r. time_key (timestamp r)) rows)"
      by (simp add: sort_key_map key)
    then show ?thesis
      by (simp add: asReading_asRecord comp_def)
  qed
  have h': "hourly_input env ?rows'"
    using assms unfolding rows' hourly_input_def by (simp add: distinct_map)
  have "map (asRecord env) ?rows' = ?recs"
    unfolding rows' by (simp add: sort_key_map key)
  moreover have "sort_key ?key ?recs = ?recs"
    by (rule sort_key_id_if_sorted) (rule sorted_sort_key)
  ultimately have "aggregateToHourly env ?rows' = Inr ?recs"
    using aggregate_hourly_input[OF h'] by simp
  with aggregate_hourly_input[OF assms] show ?thesis
    by simp
qed

theorem aggregate_idempotent_on_hours_witness:
  "aggregateToHourly utc_host demo_hours
     = Inr [asRecord utc_host (reading 1704096000000 3), asRecord utc_host (reading 1704099600000 (25 / 2))]
   \<and> aggregateToHourly utc_host [reading 1704096000000 3, reading 1704099600000 (25 / 2)]
     = Inr [asRecord utc_host (reading 1704096000000 3), asRecord utc_host (reading 1704099600000 (25 / 2))]"
proof -
  have s: "sort_key (\<lambda>h. time_key (timestampH h)) (map (asRecord utc_host) demo_hours)
      = [asRecord utc_host (reading 1704096000000 3), asRecord utc_host (reading 1704099600000 (25 / 2))]"
    by (simp add: demo_hours_def asRecord_def reading_def)
  from aggregate_idempotent_on_hours[OF hourly_input_demo] show ?thesis
    unfolding s by (simp add: asReading_asRecord)
qed

text \<open>
  C2. For every record that the aggregator produces from readings with finite values, and
  for each of the three quantities: the record's minimum and maximum are the least and the
  greatest of the contributing readings' values, so the minimum is at most the maximum; the
  record's average is the double-precision quotient, by the number of contributing readings,
  of the double-precision sum of their values taken in order from zero; and whenever that
  average is the exact arithmetic mean of the values, it lies between the minimum and the
  maximum.
\<close>

theorem hourly_stats_of_finite_readings:
  assumes "aggregateToHourly env rows = Inr recs" "h \<in> set recs" "finite_rows rows"
  shows "bucket env rows h \<noteq> []
    \<and> (extrema (map activePower (bucket env rows h)) (activeMin h) (activeMax h)
       \<and> fle (activeMin h) (activeMax h)
       \<and> activeAvg h = average (map activePower (bucket env rows h)) (length (bucket env rows h))
       \<and> (activeAvg h = Fin (exact_mean (map activePower (bucket env rows h)))
            \<longrightarrow> fle (activeMin h) (activeAvg h) \<and> fle (activeAvg h) (activeMax h)))
    \<and> (extrema (map inductivePower (bucket env rows h)) (inductiveMin h) (inductiveMax h)
       \<and> fle (inductiveMin h) (inductiveMax h)
       \<and> inductiveAvg h = average (map inductivePower (bucket env rows h)) (length (bucket env rows h))
       \<and> (inductiveAvg h = Fin (exact_mean (map inductivePower (bucket env rows h)))
            \<longrightarrow> fle (inductiveMin h) (inductiveAvg h) \<and> fle (inductiveAvg h) (inductiveMax h)))
    \<and> (extrema (map capacitivePower (bucket env rows h)) (capacitiveMin h) (capacitiveMax h)
       \<and> fle (capacitiveMin h) (capacitiveMax h)
       \<and> capacitiveAvg h = average (map capacitivePower (bucket env rows h)) (length (bucket env rows h))
       \<and> (capacitiveAvg h = Fin (exact_mean (map capacitivePower (bucket env rows h)))
            \<longrightarrow> fle (capacitiveMin h) (capacitiveAvg h) \<and> fle (capacitiveAvg h) (capacitiveMax h)))"
proof -
  define b where "b = bucket env rows h"
  from aggregate_records[OF assms(1,2)] obtain k where ne: "b \<noteq> []"
    and h: "h = hourlyRecord env (k, b)"
    unfolding b_def by blast
  have sub: "set b \<subseteq> set rows"
    by (auto simp: b_def bucket_def)
  have fin: "\<forall>v \<in> set (map activePower b). isFinite v"
    "\<forall>v \<in> set (map inductivePower b). isFinite v"
    "\<forall>v \<in> set (map capacitivePower b). isFinite v"
    using assms(3) sub by (auto simp: finite_rows_def)
  have ne': "map activePower b \<noteq> []" "map inductivePower b \<noteq> []" "map capacitivePower b \<noteq> []"
    using ne by simp_all
  have f: "activeMin h = Math_min (map activePower b)" "activeMax h = Math_max (map activePower b)"
    "activeAvg h = average (map activePower b) (length b)"
    "inductiveMin h = Math_min (map inductivePower b)" "inductiveMax h = Math_max (map inductivePower b)"
    "inductiveAvg h = average (map inductivePower b) (length b)"
    "capacitiveMin h = Math_min (map capacitivePower b)" "capacitiveMax h = Math_max (map capacitivePower b)"
    "capacitiveAvg h = average (map capacitivePower b) (length b)"
    by (simp_all add: arg_cong[OF h] hourlyRecord_def Let_def)
  note a = quantity_stats[OF ne'(1) fin(1), of "activeAvg h"]
  note i = quantity_stats[OF ne'(2) fin(2), of "inductiveAvg h"]
  note c = quantity_stats[OF ne'(3) fin(3), of "capacitiveAvg h"]
  have A: "extrema (map activePower b) (activeMin h) (activeMax h)
       \<and> fle (activeMin h) (activeMax h)
       \<and> activeAvg h = average (map activePower b) (length b)
       \<and> (activeAvg h = Fin (exact_mean (map activePower b))
            \<longrightarrow> fle (activeMin h) (activeAvg h) \<and> fle (activeAvg h) (activeMax h))"
    using a f(3) unfolding f(1,2) by blast
  have I: "extrema (map inductivePower b) (inductiveMin h) (inductiveMax h)
       \<and> fle (inductiveMin h) (inductiveMax h)
       \<and> inductiveAvg h = average (map inductivePower b) (length b)
       \<and> (inductiveAvg h = Fin (exact_mean (map inductivePower b))
            \<longrightarrow> fle (inductiveMin h) (inductiveAvg h) \<and> fle (inductiveAvg h) (inductiveMax h))"
    using i f(6) unfolding f(4,5) by blast
  have C: "extrema (map capacitivePower b) (capacitiveMin h) (capacitiveMax h)
       \<and> fle (capacitiveMin h) (capacitiveMax h)
       \<and> capacitiveAvg h = average (map capacitivePower b) (length b)
       \<and> (capacitiveAvg h = Fin (exact_mean (map capacitivePower b))
            \<longrightarrow> fle (capacitiveMin h) (capacitiveAvg h) \<and> fle (capacitiveAvg h) (capacitiveMax h))"
    using c f(9) unfolding f(7,8) by blast
  from ne A I C show ?thesis unfolding b_def by blast
qed

theorem hourly_stats_of_finite_readings_witness:
  "aggregateToHourly utc_host demo_pair = Inr [demo_pair_hour]
   \<and> bucket utc_host demo_pair demo_pair_hour = demo_pair
   \<and> fle (activeMin demo_pair_hour) (activeAvg demo_pair_hour)
   \<and> fle (activeAvg demo_pair_hour) (activeMax demo_pair_hour)"
proof -
  have h: "hourStart utc_host (reading 1704096900000 10) = Date 1704096000000"
    "hourStart utc_host (reading 1704098700000 20) = Date 1704096000000"
    by (simp_all add: hourStart_utc)
  have b: "bucket utc_host demo_pair demo_pair_hour = demo_pair"
    by (simp add: bucket_def demo_pair_def h) (simp add: demo_pair_hour_def)
  have fr: "finite_rows demo_pair"
    by (simp add: finite_rows_def demo_pair_def reading_def)
  have m: "activeAvg demo_pair_hour = Fin (exact_mean (map activePower demo_pair))"
    by (simp add: demo_pair_hour_def demo_pair_def reading_def exact_mean_def)
  have "demo_pair_hour \<in> set [demo_pair_hour]" by simp
  from hourly_stats_of_finite_readings[OF aggregate_pair this fr] m
  have "fle (activeMin demo_pair_hour) (activeAvg demo_pair_hour)
      \<and> fle (activeAvg demo_pair_hour) (activeMax demo_pair_hour)"
    unfolding b by blast
  with aggregate_pair b show ?thesis by blast
qed

text \<open>
  The claim as stated fails: three readings of 0.1 kW in one hour give a record whose
  average, 0.10000000000000002, exceeds its maximum, 0.1.
\<close>

theorem mean_exceeds_max_counterexample:
  "aggregateToHourly utc_host demo_tenths = Inr [demo_tenths_hour]
   \<and> \<not> fle (activeAvg demo_tenths_hour) (activeMax demo_tenths_hour)"
proof -
  have "\<not> fle (activeAvg demo_tenths_hour) (activeMax demo_tenths_hour)"
    by (simp add: demo_tenths_hour_def tenth_def)
  with aggregate_tenths show ?thesis by blast
qed

end
